theory Spec2Isabelle
  imports Main "HOL-Library.Char_ord" "HOL-Library.List_Lexorder" "HOL-Library.Product_Lexorder"
    "HOL-Library.Sublist"
begin

section \<open>Strings\<close>

text \<open>
  Python strings are modelled as \<^typ>\<open>string\<close>, restricted to ASCII text: the character
  classes below are those of Python on code points below 128. Apart from the examples,
  the theorems of this theory use of these classes only that the comma is not a blank.
\<close>

definition isspace :: "char \<Rightarrow> bool" where
  \<comment> \<open>\<open>str.isspace\<close> on ASCII: tab, line feed, vertical tab, form feed, carriage return,
      the separators 0x1c to 0x1f, and the blank.\<close>
  "isspace c = ((of_char c :: nat) \<in> {9, 10, 11, 12, 13, 28, 29, 30, 31, 32})"

definition strip :: "string \<Rightarrow> string" where
  \<comment> \<open>\<open>s.strip()\<close>\<close>
  "strip s = rev (dropWhile isspace (rev (dropWhile isspace s)))"

definition lower_char :: "char \<Rightarrow> char" where
  "lower_char c = (let n = (of_char c :: nat) in if 65 \<le> n \<and> n \<le> 90 then char_of (n + 32) else c)"

definition lower :: "string \<Rightarrow> string" where
  \<comment> \<open>\<open>s.lower()\<close>\<close>
  "lower s = map lower_char s"

definition startswith :: "string \<Rightarrow> string \<Rightarrow> bool" where
  \<comment> \<open>\<open>s.startswith(p)\<close>\<close>
  "startswith s p = (take (length p) s = p)"

fun split_comma :: "string \<Rightarrow> string list" where
  \<comment> \<open>\<open>s.split(',')\<close>: always at least one piece.\<close>
  "split_comma [] = [[]]"
| "split_comma (c # cs) =
     (if c = CHR '','' then [] # split_comma cs
      else (case split_comma cs of [] \<Rightarrow> [[c]] | p # ps \<Rightarrow> (c # p) # ps))"

section \<open>Records and the rows of the listing table\<close>

text \<open>
  One row of the DataFrame built by the scrapers: the columns \<open>Date\<close>, \<open>Title\<close> and
  \<open>Link\<close>. \<open>Link\<close> is what \<open>link_tag.get('href')\<close> gave, possibly rewritten; it is
  \<open>None\<close> when the anchor has no \<open>href\<close> attribute. A DataFrame is the list of its rows;
  \<open>pd.DataFrame()\<close> is the empty list.
\<close>

record circular =
  Date :: string
  Title :: string
  Link :: "string option"

type_synonym frame = "circular list"

text \<open>
  What BeautifulSoup gives for a table row: the \<open>td\<close> cells found by
  \<open>row.find_all('td')\<close>; for each cell its \<open>.text\<close> and the first anchor found by
  \<open>.find('a')\<close>, if any; for an anchor its \<open>title\<close> attribute, its \<open>.text\<close> and its
  \<open>href\<close> attribute.
\<close>

record anchor =
  title_attr :: "string option"
  a_text :: string
  href :: "string option"

record cell =
  cell_text :: string
  find_a :: "anchor option"

type_synonym row = "cell list"

definition base_url :: string where
  "base_url = ''https://www.sebi.gov.in''"

definition absolute_link :: "string option \<Rightarrow> string option" where
  \<comment> \<open>\<open>if link and not link.startswith(('http://', 'https://')): link = base_url + link\<close>\<close>
  "absolute_link link =
     (case link of
        None \<Rightarrow> None
      | Some l \<Rightarrow>
          if l \<noteq> [] \<and> \<not> (startswith l ''http://'' \<or> startswith l ''https://'')
          then Some (base_url @ l) else Some l)"

definition parse_row :: "row \<Rightarrow> circular option" where
  \<comment> \<open>The body of \<open>for row in rows\<close>, the same text in both scrapers of \<open>new.py\<close> and in
      \<open>app.py\<close>: the record the row appends, if it appends one.\<close>
  "parse_row cells =
     (if length cells = 2 then
        (case find_a (cells ! 1) of
           None \<Rightarrow> None
         | Some link_tag \<Rightarrow>
             Some \<lparr> Date = strip (cell_text (cells ! 0)),
                    Title = (case title_attr link_tag of
                               Some t \<Rightarrow> t
                             | None \<Rightarrow> strip (a_text link_tag)),
                    Link = absolute_link (href link_tag) \<rparr>)
      else None)"

fun extract_rows :: "row list \<Rightarrow> frame" where
  \<comment> \<open>\<open>for row in rows: ...append(...)\<close>\<close>
  "extract_rows [] = []"
| "extract_rows (r # rs) =
     (case parse_row r of None \<Rightarrow> extract_rows rs | Some c \<Rightarrow> c # extract_rows rs)"

section \<open>The browser\<close>

text \<open>
  The exceptions the scrapers tell apart. \<open>TimeoutException\<close>,
  \<open>NoSuchElementException\<close> and \<open>StaleElementReferenceException\<close> are subclasses of
  Selenium's \<open>WebDriverException\<close>; the constructor \<open>WebDriverException\<close> stands for every
  other Selenium error, \<open>AttributeError\<close> is what \<open>table.find('tbody').find_all('tr')\<close>
  raises when the table has no \<open>tbody\<close>, and \<open>OtherError\<close> is any other \<open>Exception\<close>.
\<close>

datatype exn =
    TimeoutException
  | NoSuchElementException
  | StaleElementReferenceException
  | WebDriverException
  | AttributeError
  | OtherError

definition is_WebDriverException :: "exn \<Rightarrow> bool" where
  \<comment> \<open>\<open>except WebDriverException\<close>\<close>
  "is_WebDriverException e =
     (e = TimeoutException \<or> e = NoSuchElementException \<or>
      e = StaleElementReferenceException \<or> e = WebDriverException)"

definition pagination_caught :: "exn \<Rightarrow> bool" where
  \<comment> \<open>\<open>except (NoSuchElementException, TimeoutException, StaleElementReferenceException)\<close>\<close>
  "pagination_caught e =
     (e = NoSuchElementException \<or> e = TimeoutException \<or> e = StaleElementReferenceException)"

text \<open>
  \<open>soup.find('table', id='sample_1')\<close> is \<open>None\<close> or a table; the table's
  \<open>find('tbody')\<close> is \<open>None\<close> or a body with its \<open>tr\<close> rows.
\<close>

type_synonym table = "row list option"

text \<open>
  The browser is an injected capability: a state of type \<open>'s\<close> and the calls the
  scrapers make on it. Each call either raises or returns its value and the next state.
  \<^item> \<open>launch\<close>: \<open>Service(ChromeDriverManager().install())\<close> and \<open>webdriver.Chrome(...)\<close>;
  \<^item> \<open>get_url\<close>: \<open>driver.get(url)\<close>, the listing URL being fixed;
  \<^item> \<open>wait_table\<close>: \<open>WebDriverWait(driver, 15).until(EC.presence_of_element_located((By.ID, 'sample_1')))\<close>,
    returning the element;
  \<^item> \<open>wait_next\<close>: \<open>WebDriverWait(driver, 5).until(EC.element_to_be_clickable((By.XPATH, "//a[@title='Next']")))\<close>;
  \<^item> \<open>click\<close>: \<open>driver.execute_script("arguments[0].click();", next_button)\<close>;
  \<^item> \<open>wait_staleness\<close>: \<open>WebDriverWait(driver, 15).until(EC.staleness_of(old_table_element))\<close>;
  \<^item> \<open>page_source\<close>: \<open>BeautifulSoup(driver.page_source, 'html.parser').find('table', id='sample_1')\<close>.

  \<open>driver.quit()\<close> returns nothing the scrapers use and the Chrome driver swallows its
  errors; it is left out.
\<close>

record 's driver =
  launch :: "exn + 's"
  get_url :: "'s \<Rightarrow> exn + 's"
  wait_table :: "'s \<Rightarrow> exn + nat \<times> 's"
  wait_next :: "'s \<Rightarrow> exn + nat \<times> 's"
  click :: "nat \<Rightarrow> 's \<Rightarrow> exn + 's"
  wait_staleness :: "nat \<Rightarrow> 's \<Rightarrow> exn + 's"
  page_source :: "'s \<Rightarrow> exn + table option \<times> 's"

definition initialize_driver :: "'s driver \<Rightarrow> exn + 's option" where
  \<comment> \<open>\<open>new.py\<close>: returns \<open>None\<close> on a \<open>WebDriverException\<close>, lets anything else through.\<close>
  "initialize_driver D =
     (case launch D of
        Inr s \<Rightarrow> Inr (Some s)
      | Inl e \<Rightarrow> if is_WebDriverException e then Inr None else Inl e)"

definition click_next :: "'s driver \<Rightarrow> 's \<Rightarrow> exn + 's" where
  \<comment> \<open>One pagination cycle, the \<open>try\<close> body of the \<open>while\<close> loop and of the harvester's
      advance: table present, Next clickable, click, old table stale, new table present.\<close>
  "click_next D s =
     (case wait_table D s of Inl e \<Rightarrow> Inl e | Inr (old_table_element, s1) \<Rightarrow>
      case wait_next D s1 of Inl e \<Rightarrow> Inl e | Inr (next_button, s2) \<Rightarrow>
      case click D next_button s2 of Inl e \<Rightarrow> Inl e | Inr s3 \<Rightarrow>
      case wait_staleness D old_table_element s3 of Inl e \<Rightarrow> Inl e | Inr s4 \<Rightarrow>
      case wait_table D s4 of Inl e \<Rightarrow> Inl e | Inr (_, s5) \<Rightarrow> Inr s5)"

text \<open>
  How the loop \<open>while current_page < page_number\<close> ends: on the target page; in its
  \<open>except\<close> branch, which logs the warning \<open>... before reaching page {page_number}. Current
  page: {current_page}. Error: {e}\<close> and makes the scraper return an empty DataFrame; or
  with an exception the branch does not catch.
\<close>

datatype 's navigation =
    On_target 's
  | Not_reached int exn
  | Raised exn

text \<open>
  The loop, with the number of times its \<open>try\<close> body was entered, that is, the number of
  pagination cycles begun.
\<close>

function navigate_cycles :: "'s driver \<Rightarrow> int \<Rightarrow> int \<Rightarrow> 's \<Rightarrow> 's navigation \<times> nat" where
  "navigate_cycles D page_number current_page s =
     (if current_page < page_number then
        (case click_next D s of
           Inr s' \<Rightarrow>
             (case navigate_cycles D page_number (current_page + 1) s' of
                (outcome, cycles) \<Rightarrow> (outcome, Suc cycles))
         | Inl e \<Rightarrow> (if pagination_caught e then Not_reached current_page e else Raised e, 1))
      else (On_target s, 0))"
  by pat_completeness auto
termination
  by (relation "measure (\<lambda>(D, page_number, current_page, s). nat (page_number - current_page))") auto

declare navigate_cycles.simps [simp del]

definition navigate :: "'s driver \<Rightarrow> int \<Rightarrow> int \<Rightarrow> 's \<Rightarrow> 's navigation" where
  \<comment> \<open>How the loop ends.\<close>
  "navigate D page_number current_page s = fst (navigate_cycles D page_number current_page s)"

definition extract_target_page :: "'s driver \<Rightarrow> 's \<Rightarrow> exn + frame" where
  \<comment> \<open>\<open>extract_sebi_circulars_on_page\<close> from "Once on the target page" on.\<close>
  "extract_target_page D s =
     (case wait_table D s of
        Inl e \<Rightarrow> if e = TimeoutException then Inr [] else Inl e
      | Inr (_, s1) \<Rightarrow>
          (case page_source D s1 of
             Inl e \<Rightarrow> Inl e
           | Inr (None, _) \<Rightarrow> Inr []
           | Inr (Some None, _) \<Rightarrow> Inl AttributeError
           | Inr (Some (Some rows), _) \<Rightarrow> if rows = [] then Inr [] else Inr (extract_rows rows)))"

definition extract_from_session :: "'s driver \<Rightarrow> int \<Rightarrow> 's \<Rightarrow> exn + frame" where
  \<comment> \<open>\<open>extract_sebi_circulars_on_page\<close> from \<open>driver.get(url)\<close> on, the same in both files.\<close>
  "extract_from_session D page_number s0 =
     (case get_url D s0 of
        Inl e \<Rightarrow> Inl e
      | Inr s1 \<Rightarrow>
          (case navigate D page_number 1 s1 of
             Raised e \<Rightarrow> Inl e
           | Not_reached current_page e \<Rightarrow> Inr []
           | On_target s2 \<Rightarrow> extract_target_page D s2))"

definition extract_sebi_circulars_on_page :: "'s driver \<Rightarrow> int \<Rightarrow> exn + frame" where
  \<comment> \<open>\<open>new.py\<close>\<close>
  "extract_sebi_circulars_on_page D page_number =
     (if page_number \<le> 0 then Inr []
      else (case initialize_driver D of
              Inl e \<Rightarrow> Inl e
            | Inr None \<Rightarrow> Inr []
            | Inr (Some s0) \<Rightarrow> extract_from_session D page_number s0))"

definition app_extract_sebi_circulars_on_page :: "'s driver \<Rightarrow> int \<Rightarrow> exn + frame" where
  \<comment> \<open>\<open>app.py\<close>: the driver is launched in place, a \<open>WebDriverException\<close> gives an empty
      DataFrame.\<close>
  "app_extract_sebi_circulars_on_page D page_number =
     (if page_number \<le> 0 then Inr []
      else (case launch D of
              Inl e \<Rightarrow> if is_WebDriverException e then Inr [] else Inl e
            | Inr s0 \<Rightarrow> extract_from_session D page_number s0))"

section \<open>The harvester\<close>

fun drop_duplicates_seen :: "string option list \<Rightarrow> frame \<Rightarrow> frame" where
  \<comment> \<open>\<open>drop_duplicates(subset=['Link'])\<close>, \<open>keep='first'\<close>: a row is dropped when its link
      was seen in an earlier row. Two missing links are equal.\<close>
  "drop_duplicates_seen seen [] = []"
| "drop_duplicates_seen seen (r # rs) =
     (if Link r \<in> set seen then drop_duplicates_seen seen rs
      else r # drop_duplicates_seen (Link r # seen) rs)"

definition drop_duplicates :: "frame \<Rightarrow> frame" where
  "drop_duplicates df = drop_duplicates_seen [] df"

definition scrape_page :: "'s driver \<Rightarrow> int \<Rightarrow> int \<Rightarrow> 's \<Rightarrow> frame \<Rightarrow> frame \<times> 's option" where
  \<comment> \<open>One iteration of \<open>for page_idx in range(1, num_pages + 1)\<close>: the new value of
      \<open>all_circulars_data\<close>, and the next state, or \<open>None\<close> after a \<open>break\<close>. Every
      exception raised in the body is caught and breaks.\<close>
  "scrape_page D num_pages page_idx s all_circulars_data =
     (case wait_table D s of
        Inl e \<Rightarrow> (all_circulars_data, None)
      | Inr (_, s1) \<Rightarrow>
          (case page_source D s1 of
             Inl e \<Rightarrow> (all_circulars_data, None)
           | Inr (None, _) \<Rightarrow> (all_circulars_data, None)
           | Inr (Some None, _) \<Rightarrow> (all_circulars_data, None)
           | Inr (Some (Some rows), s2) \<Rightarrow>
               (let all_circulars_data' = all_circulars_data @ extract_rows rows in
                if page_idx < num_pages then
                  (case click_next D s2 of
                     Inl e \<Rightarrow> (all_circulars_data', None)
                   | Inr s3 \<Rightarrow> (all_circulars_data', Some s3))
                else (all_circulars_data', Some s2))))"

fun scrape_pages :: "'s driver \<Rightarrow> int \<Rightarrow> int list \<Rightarrow> 's \<Rightarrow> frame \<Rightarrow> frame" where
  "scrape_pages D num_pages [] s all_circulars_data = all_circulars_data"
| "scrape_pages D num_pages (page_idx # rest) s all_circulars_data =
     (case scrape_page D num_pages page_idx s all_circulars_data of
        (all_circulars_data', None) \<Rightarrow> all_circulars_data'
      | (all_circulars_data', Some s') \<Rightarrow> scrape_pages D num_pages rest s' all_circulars_data')"

definition scrape_recent_circulars :: "'s driver \<Rightarrow> int \<Rightarrow> exn + frame" where
  "scrape_recent_circulars D num_pages =
     (if num_pages \<le> 0 then Inr []
      else (case initialize_driver D of
              Inl e \<Rightarrow> Inl e
            | Inr None \<Rightarrow> Inr []
            | Inr (Some s0) \<Rightarrow>
                (case get_url D s0 of
                   Inl e \<Rightarrow> Inl e
                 | Inr s1 \<Rightarrow>
                     Inr (drop_duplicates (scrape_pages D num_pages [1..num_pages] s1 [])))))"

text \<open>
  A browser for the examples: a listing of fixed pages, the state being the index of the
  page shown. The table and the Next control are found as long as the page, respectively
  a next page, exists; otherwise the bounded wait times out.
\<close>

definition static_site :: "row list list \<Rightarrow> nat driver" where
  "static_site pages =
     \<lparr> launch = Inr 0,
       get_url = (\<lambda>s. Inr 0),
       wait_table = (\<lambda>s. if s < length pages then Inr (s, s) else Inl TimeoutException),
       wait_next = (\<lambda>s. if Suc s < length pages then Inr (length pages, s) else Inl TimeoutException),
       click = (\<lambda>el s. Inr (Suc s)),
       wait_staleness = (\<lambda>el s. Inr s),
       page_source = (\<lambda>s. if s < length pages then Inr (Some (Some (pages ! s)), s) else Inr (None, s)) \<rparr>"

definition served_rows :: "'s driver \<Rightarrow> row set" where
  \<comment> \<open>The rows of every listing table the browser can show.\<close>
  "served_rows D = {r. \<exists>s rows s'. page_source D s = Inr (Some (Some rows), s') \<and> r \<in> set rows}"

fun advance :: "'s driver \<Rightarrow> nat \<Rightarrow> 's \<Rightarrow> 's option" where
  \<comment> \<open>The state after \<open>k\<close> pagination cycles in a row, if each of them succeeds.\<close>
  "advance D 0 s = Some s"
| "advance D (Suc k) s = (case click_next D s of Inl e \<Rightarrow> None | Inr s' \<Rightarrow> advance D k s')"

fun harvest_prefix :: "'s driver \<Rightarrow> int \<Rightarrow> nat \<Rightarrow> 's \<Rightarrow> (frame \<times> 's) option" where
  \<comment> \<open>What has been collected, and the state, after the iterations for the pages \<open>1\<close> to
      \<open>k\<close>, if none of them breaks.\<close>
  "harvest_prefix D num_pages 0 s = Some ([], s)"
| "harvest_prefix D num_pages (Suc k) s =
     (case harvest_prefix D num_pages k s of
        None \<Rightarrow> None
      | Some (all_circulars_data, s') \<Rightarrow>
          (case scrape_page D num_pages (int (Suc k)) s' all_circulars_data of
             (all_circulars_data', None) \<Rightarrow> None
           | (all_circulars_data', Some s'') \<Rightarrow> Some (all_circulars_data', s'')))"

section \<open>The similarity matcher\<close>

definition is_word_char :: "char \<Rightarrow> bool" where
  \<comment> \<open>\<open>\w\<close> on ASCII: letters, digits and the underscore.\<close>
  "is_word_char c =
     (let n = (of_char c :: nat) in
      (48 \<le> n \<and> n \<le> 57) \<or> (65 \<le> n \<and> n \<le> 90) \<or> n = 95 \<or> (97 \<le> n \<and> n \<le> 122))"

definition word_boundary :: "string \<Rightarrow> nat \<Rightarrow> bool" where
  \<comment> \<open>\<open>\b\<close> at position \<open>i\<close> of \<open>s\<close>: exactly one of the characters before and after is a
      word character, the outside of the string counting as none; never in the empty
      string.\<close>
  "word_boundary s i =
     (s \<noteq> [] \<and>
      ((0 < i \<and> i \<le> length s \<and> is_word_char (s ! (i - 1))) \<noteq> (i < length s \<and> is_word_char (s ! i))))"

text \<open>
  The regular expressions the matcher builds: an escaped keyword matches itself, \<open>\b\<close>,
  alternation and concatenation. \<open>re_ends r s i\<close> lists the positions where a match of
  \<open>r\<close> that starts at position \<open>i\<close> of \<open>s\<close> can end, in the order in which backtracking
  tries them; \<open>re_search\<close> is \<open>re.search\<close>, what \<open>str.contains(pattern, regex=True)\<close>
  applies to every title.
\<close>

datatype regex =
    Literal string
  | Boundary
  | Alt regex regex
  | Cat regex regex

fun re_ends :: "regex \<Rightarrow> string \<Rightarrow> nat \<Rightarrow> nat list" where
  "re_ends (Literal k) s i = (if take (length k) (drop i s) = k then [i + length k] else [])"
| "re_ends Boundary s i = (if word_boundary s i then [i] else [])"
| "re_ends (Alt a b) s i = re_ends a s i @ re_ends b s i"
| "re_ends (Cat a b) s i = concat (map (re_ends b s) (re_ends a s i))"

definition re_search :: "regex \<Rightarrow> string \<Rightarrow> bool" where
  "re_search r s = list_ex (\<lambda>i. re_ends r s i \<noteq> []) [0..<Suc (length s)]"

fun alternation :: "string list \<Rightarrow> regex" where
  \<comment> \<open>\<open>'|'.join(re.escape(k) for k in keywords)\<close>\<close>
  "alternation [] = Literal []"
| "alternation [k] = Literal k"
| "alternation (k # ks) = Alt (Literal k) (alternation ks)"

definition keyword_pattern :: "string list \<Rightarrow> regex" where
  \<comment> \<open>\<open>r'\b(?:' + ... + r')\b'\<close>\<close>
  "keyword_pattern keywords = Cat Boundary (Cat (alternation keywords) Boundary)"

definition date_key :: "int option \<Rightarrow> nat \<times> int" where
  \<comment> \<open>The rank of a parsed date under \<open>ascending=False\<close> with the default
      \<open>na_position='last'\<close>: later dates first, \<open>NaT\<close> after every date.\<close>
  "date_key d = (case d of None \<Rightarrow> (1, 0) | Some t \<Rightarrow> (0, - t))"

definition sort_values :: "(string \<Rightarrow> int option) \<Rightarrow> frame \<Rightarrow> frame" where
  \<comment> \<open>\<open>sort_values(by=['Date_Parsed', 'Title'], ascending=[False, True])\<close>: a stable
      lexicographic sort on the two columns.\<close>
  "sort_values to_datetime df = sort_key (\<lambda>r. (date_key (to_datetime (Date r)), Title r)) df"

text \<open>
  \<open>to_datetime\<close> stands for \<open>pd.to_datetime(_, format='%d %b %Y', errors='coerce')\<close> on one
  value: the timestamp, or \<open>None\<close> for \<open>NaT\<close>. It is a parameter, so that what follows holds
  for whatever the library parses.
\<close>

definition find_similar_circulars_local ::
  "(string \<Rightarrow> int option) \<Rightarrow> string \<Rightarrow> frame \<Rightarrow> string \<Rightarrow> frame" where
  "find_similar_circulars_local to_datetime keywords_str all_circulars_df original_title =
     (if all_circulars_df = [] \<or> strip keywords_str = [] then []
      else
        (let keywords = map (\<lambda>k. lower (strip k)) (filter (\<lambda>k. strip k \<noteq> []) (split_comma keywords_str))
         in if keywords = [] then []
            else
              (let pattern = keyword_pattern keywords;
                   similar_df = filter (\<lambda>r. re_search pattern (lower (Title r)) \<and>
                                            strip (Title r) \<noteq> strip original_title) all_circulars_df
               in sort_values to_datetime similar_df)))"

definition whole_word_in :: "string \<Rightarrow> string \<Rightarrow> bool" where
  \<comment> \<open>The keyword \<open>k\<close> appears in \<open>s\<close> as a whole word: as a substring that begins and ends
      at a word boundary.\<close>
  "whole_word_in k s =
     (\<exists>pre post. s = pre @ k @ post \<and> word_boundary s (length pre) \<and>
                 word_boundary s (length pre + length k))"

definition keyword_set :: "string \<Rightarrow> string list" where
  \<comment> \<open>The keywords of a CSV string: split on commas, trimmed, lower-cased, empty terms
      dropped.\<close>
  "keyword_set csv = filter (\<lambda>k. k \<noteq> []) (map (\<lambda>k. lower (strip k)) (split_comma csv))"

definition demo_dates :: "string \<Rightarrow> int option" where
  \<comment> \<open>For the examples: the dates used there, as days since 1 January 1970.\<close>
  "demo_dates d =
     (if d = ''01 Jan 2024'' then Some 19723
      else if d = ''15 Feb 2024'' then Some 19768
      else if d = ''31 Dec 2023'' then Some 19722
      else None)"

definition date_then_title :: "(string \<Rightarrow> int option) \<Rightarrow> circular \<Rightarrow> circular \<Rightarrow> bool" where
  \<comment> \<open>The record \<open>a\<close> may stand before \<open>b\<close>: its date is later; or the dates are equal, or
      both unparseable, and its title is not greater; or only its date is parseable.\<close>
  "date_then_title to_datetime a b =
     (case (to_datetime (Date a), to_datetime (Date b)) of
        (Some x, Some y) \<Rightarrow> y < x \<or> (x = y \<and> Title a \<le> Title b)
      | (Some x, None) \<Rightarrow> True
      | (None, Some y) \<Rightarrow> False
      | (None, None) \<Rightarrow> Title a \<le> Title b)"

definition corpus6 :: frame where
  \<comment> \<open>For the examples.\<close>
  "corpus6 =
     [\<lparr> Date = ''01 Jan 2024'', Title = ''Short Selling'', Link = Some ''a'' \<rparr>,
      \<lparr> Date = ''15 Feb 2024'', Title = ''On short sales'', Link = Some ''b'' \<rparr>,
      \<lparr> Date = ''n/a'', Title = ''Selling'', Link = Some ''c'' \<rparr>,
      \<lparr> Date = ''31 Dec 2023'', Title = ''A SHORT note'', Link = Some ''d'' \<rparr>,
      \<lparr> Date = ''soon'', Title = ''Re selling'', Link = None \<rparr>,
      \<lparr> Date = ''01 Jan 2024'', Title = ''Shorts'', Link = Some ''e'' \<rparr>]"

section \<open>The summarization client\<close>

text \<open>
  The decoded body of a response. An object is the list of its members, the keys being
  distinct; of a number only whether it is zero matters below.
\<close>

datatype json =
    JNull
  | JBool bool
  | JNum int
  | JStr string
  | JArr "json list"
  | JObj "(string \<times> json) list"

text \<open>
  The exceptions by their classes, each with its text \<open>str(e)\<close>:
  \<^item> \<open>RequestException\<close>: a \<open>requests.exceptions.RequestException\<close> (among them the
    \<open>HTTPError\<close> of \<open>raise_for_status\<close>) that is no \<open>json.JSONDecodeError\<close>;
  \<^item> \<open>RequestsJSONDecodeError\<close>: the \<open>requests.exceptions.JSONDecodeError\<close> that
    \<open>response.json()\<close> raises since \<open>requests\<close> 2.27, a subclass of both
    \<open>RequestException\<close> and \<open>json.JSONDecodeError\<close>;
  \<^item> \<open>JSONDecodeError\<close>: a \<open>json.JSONDecodeError\<close> that is no \<open>RequestException\<close>;
  \<^item> \<open>OtherException\<close>: any other \<open>Exception\<close>.
\<close>

datatype py_error =
    RequestException string
  | RequestsJSONDecodeError string
  | JSONDecodeError string
  | OtherException string

record request =
  api_key :: "string option"
  prompt :: string

record response =
  raise_for_status :: "py_error option"
  response_json :: "py_error + json"

text \<open>
  What the client is given: the value of \<open>os.getenv("Api_Key")\<close>, the endpoint as a function
  from the request to what \<open>requests.post\<close> does, and \<open>str\<close> on decoded values other than
  strings.
\<close>

record env =
  getenv_Api_Key :: "string option"
  post :: "request \<Rightarrow> py_error + response"
  py_str :: "json \<Rightarrow> string"

definition type_name :: "json \<Rightarrow> string" where
  "type_name v =
     (case v of JNull \<Rightarrow> ''NoneType'' | JBool _ \<Rightarrow> ''bool'' | JNum _ \<Rightarrow> ''int''
      | JStr _ \<Rightarrow> ''str'' | JArr _ \<Rightarrow> ''list'' | JObj _ \<Rightarrow> ''dict'')"

definition truthy :: "json \<Rightarrow> bool" where
  "truthy v =
     (case v of JNull \<Rightarrow> False | JBool b \<Rightarrow> b | JNum n \<Rightarrow> n \<noteq> 0
      | JStr s \<Rightarrow> s \<noteq> [] | JArr xs \<Rightarrow> xs \<noteq> [] | JObj kvs \<Rightarrow> kvs \<noteq> [])"

definition py_get :: "json \<Rightarrow> string \<Rightarrow> json \<Rightarrow> py_error + json" where
  \<comment> \<open>\<open>v.get(key, default)\<close>: an \<open>AttributeError\<close> unless \<open>v\<close> is a dict.\<close>
  "py_get v key dflt =
     (case v of
        JObj kvs \<Rightarrow> (case map_of kvs key of None \<Rightarrow> Inr dflt | Some x \<Rightarrow> Inr x)
      | _ \<Rightarrow> Inl (OtherException
                 ([CHR 0x27] @ type_name v @ [CHR 0x27] @ '' object has no attribute '' @
                  [CHR 0x27] @ ''get'' @ [CHR 0x27])))"

definition py_len :: "json \<Rightarrow> py_error + nat" where
  \<comment> \<open>\<open>len(v)\<close>: a \<open>TypeError\<close> on \<open>None\<close>, a boolean or a number.\<close>
  "py_len v =
     (case v of
        JStr s \<Rightarrow> Inr (length s)
      | JArr xs \<Rightarrow> Inr (length xs)
      | JObj kvs \<Rightarrow> Inr (length kvs)
      | _ \<Rightarrow> Inl (OtherException
                 (''object of type '' @ [CHR 0x27] @ type_name v @ [CHR 0x27] @ '' has no len()'')))"

definition py_first :: "json \<Rightarrow> py_error + json" where
  \<comment> \<open>\<open>v[0]\<close>: the first element of a list, the first character of a string, a
      \<open>KeyError\<close> on a dict (its keys are strings), whose text is \<open>0\<close>.\<close>
  "py_first v =
     (case v of
        JArr (x # _) \<Rightarrow> Inr x
      | JArr [] \<Rightarrow> Inl (OtherException ''list index out of range'')
      | JStr (c # _) \<Rightarrow> Inr (JStr [c])
      | JStr [] \<Rightarrow> Inl (OtherException ''string index out of range'')
      | JObj _ \<Rightarrow> Inl (OtherException ''0'')
      | _ \<Rightarrow> Inl (OtherException
                 ([CHR 0x27] @ type_name v @ [CHR 0x27] @ '' object is not subscriptable'')))"

definition unexpected_structure :: string where
  "unexpected_structure = ''Failed to get summary: Unexpected API response structure.''"

definition guidance :: string where
  "guidance = ''Please provide text to summarize.''"

definition link_suffix :: "string \<Rightarrow> string" where
  \<comment> \<open>\<open>"\n\n[Original Circular Link]({circular_link})"\<close>\<close>
  "link_suffix circular_link =
     [CHR 0x0A, CHR 0x0A] @ ''[Original Circular Link]('' @ circular_link @ '')''"

definition read_envelope :: "(json \<Rightarrow> string) \<Rightarrow> json \<Rightarrow> string \<Rightarrow> py_error + string" where
  \<comment> \<open>The \<open>if ... else\<close> on \<open>result\<close>: the string returned, or the exception raised on
      the way. The conjuncts are evaluated from left to right.\<close>
  "read_envelope str_of result circular_link =
     (case py_get result ''candidates'' JNull of Inl e \<Rightarrow> Inl e | Inr candidates \<Rightarrow>
      if \<not> truthy candidates then Inr unexpected_structure else
      case py_len candidates of Inl e \<Rightarrow> Inl e | Inr n \<Rightarrow>
      if \<not> 0 < n then Inr unexpected_structure else
      case py_first candidates of Inl e \<Rightarrow> Inl e | Inr candidate \<Rightarrow>
      case py_get candidate ''content'' JNull of Inl e \<Rightarrow> Inl e | Inr content \<Rightarrow>
      if \<not> truthy content then Inr unexpected_structure else
      case py_get content ''parts'' JNull of Inl e \<Rightarrow> Inl e | Inr parts \<Rightarrow>
      if \<not> truthy parts then Inr unexpected_structure else
      case py_len parts of Inl e \<Rightarrow> Inl e | Inr m \<Rightarrow>
      if \<not> 0 < m then Inr unexpected_structure else
      case py_first parts of Inl e \<Rightarrow> Inl e | Inr part \<Rightarrow>
      case py_get part ''text'' (JStr ''No summary text found.'') of Inl e \<Rightarrow> Inl e
      | Inr summary_text \<Rightarrow>
          Inr ((case summary_text of JStr t \<Rightarrow> t | v \<Rightarrow> str_of v) @ link_suffix circular_link))"

definition handle_error :: "py_error \<Rightarrow> string" where
  \<comment> \<open>The three \<open>except\<close> clauses, in their order: the first one that the class of the
      exception matches.\<close>
  "handle_error e =
     (case e of
        RequestException m \<Rightarrow> ''An error occurred while summarizing: '' @ m
      | RequestsJSONDecodeError m \<Rightarrow> ''An error occurred while summarizing: '' @ m
      | JSONDecodeError m \<Rightarrow> ''An error occurred while processing API response: '' @ m
      | OtherException m \<Rightarrow> ''An unexpected error occurred: '' @ m)"

definition summary_prompt :: "string \<Rightarrow> string" where
  "summary_prompt circular_text =
     ''Provide a detailed and effective summary of the following SEBI circular. '' @
     ''The summary should cover all key aspects, new regulations, guidelines, important dates, '' @
     ''and affected stakeholders. Ensure the summary is coherent, professional, and suitable '' @
     ''for official communication. The summary must not exceed 1000 words.'' @
     [CHR 0x0A, CHR 0x0A] @ ''Circular Text:'' @ [CHR 0x0A] @ circular_text"

definition summarize_circular_text :: "env \<Rightarrow> string \<Rightarrow> string \<Rightarrow> string \<times> request list" where
  \<comment> \<open>The string returned, and the requests posted on the way.\<close>
  "summarize_circular_text E circular_text circular_link =
     (if strip circular_text = [] then (guidance, [])
      else
        (let req = \<lparr> api_key = getenv_Api_Key E, prompt = summary_prompt circular_text \<rparr> in
         (case post E req of
            Inl e \<Rightarrow> handle_error e
          | Inr resp \<Rightarrow>
              (case raise_for_status resp of
                 Some e \<Rightarrow> handle_error e
               | None \<Rightarrow>
                   (case response_json resp of
                      Inl e \<Rightarrow> handle_error e
                    | Inr result \<Rightarrow>
                        (case read_envelope (py_str E) result circular_link of
                           Inl e \<Rightarrow> handle_error e
                         | Inr answer \<Rightarrow> answer))),
          [req])))"

definition service_reply :: "env \<Rightarrow> string \<Rightarrow> py_error + json" where
  \<comment> \<open>What \<open>requests.post\<close>, \<open>raise_for_status\<close> and \<open>response.json()\<close> give for the text:
      the exception of the first that raises, or the decoded body.\<close>
  "service_reply E circular_text =
     (case post E \<lparr> api_key = getenv_Api_Key E, prompt = summary_prompt circular_text \<rparr> of
        Inl e \<Rightarrow> Inl e
      | Inr resp \<Rightarrow>
          (case raise_for_status resp of Some e \<Rightarrow> Inl e | None \<Rightarrow> response_json resp))"

definition present :: "(string \<times> json) list \<Rightarrow> string \<Rightarrow> json option" where
  \<comment> \<open>The member of an object under a key, unless it is absent or empty: \<open>null\<close>,
      \<open>false\<close>, zero, or an empty string, list or object.\<close>
  "present members key =
     (case map_of members key of None \<Rightarrow> None | Some v \<Rightarrow> if truthy v then Some v else None)"

fun object_members :: "json \<Rightarrow> (string \<times> json) list option" where
  "object_members (JObj members) = Some members"
| "object_members _ = None"

fun first_object :: "json \<Rightarrow> (string \<times> json) list option" where
  \<comment> \<open>The first element of a list, when it is an object.\<close>
  "first_object (JArr (JObj members # _)) = Some members"
| "first_object _ = None"

text \<open>
  The shapes of a decoded body, going down \<open>candidates[0].content.parts[0]\<close>:
  \<^item> \<open>Lacking\<close>: the body is an object and \<open>candidates\<close>, or the \<open>content\<close> of the object
    \<open>candidates[0]\<close>, or the \<open>parts\<close> of the object \<open>content\<close>, is absent or empty;
  \<^item> \<open>Part\<close>: the path exists and \<open>parts[0]\<close> is this object;
  \<^item> \<open>Misshapen\<close>: anything else, that is, before anything is absent or empty a value
    has another type than the path asks: the body or \<open>content\<close> is no object, or
    \<open>candidates\<close> or \<open>parts\<close> is no list with an object first.
\<close>

datatype shape =
    Lacking
  | Part "(string \<times> json) list"
  | Misshapen

definition envelope_shape :: "json \<Rightarrow> shape" where
  "envelope_shape result =
     (case object_members result of None \<Rightarrow> Misshapen | Some members \<Rightarrow>
      case present members ''candidates'' of None \<Rightarrow> Lacking | Some candidates \<Rightarrow>
      case first_object candidates of None \<Rightarrow> Misshapen | Some candidate \<Rightarrow>
      case present candidate ''content'' of None \<Rightarrow> Lacking | Some content \<Rightarrow>
      case object_members content of None \<Rightarrow> Misshapen | Some content_members \<Rightarrow>
      case present content_members ''parts'' of None \<Rightarrow> Lacking | Some parts \<Rightarrow>
      case first_object parts of None \<Rightarrow> Misshapen | Some part \<Rightarrow> Part part)"

definition summary_of_part :: "(json \<Rightarrow> string) \<Rightarrow> (string \<times> json) list \<Rightarrow> string" where
  \<comment> \<open>The \<open>text\<close> of \<open>parts[0]\<close> as the answer shows it: the string itself, the placeholder
      when there is no \<open>text\<close>, \<open>str\<close> of any other value.\<close>
  "summary_of_part str_of part =
     (case map_of part ''text'' of
        None \<Rightarrow> ''No summary text found.''
      | Some (JStr t) \<Rightarrow> t
      | Some v \<Rightarrow> str_of v)"

definition fake_gemini :: "py_error + response \<Rightarrow> env" where
  \<comment> \<open>For the examples: an endpoint that treats every request the same way. \<open>str\<close> on
      values other than strings is not used there.\<close>
  "fake_gemini outcome =
     \<lparr> getenv_Api_Key = Some ''k'', post = (\<lambda>req. outcome), py_str = (\<lambda>v. []) \<rparr>"

definition ok_body :: "json \<Rightarrow> py_error + response" where
  \<comment> \<open>For the examples: status 200 and the given body.\<close>
  "ok_body body = Inr \<lparr> raise_for_status = None, response_json = Inr body \<rparr>"

definition envelope :: "(string \<times> json) list \<Rightarrow> json" where
  \<comment> \<open>For the examples: the body \<open>{"candidates": [{"content": {"parts": [part]}}]}\<close>.\<close>
  "envelope part =
     JObj [(''candidates'', JArr [JObj [(''content'', JObj [(''parts'', JArr [JObj part])])]])]"

definition wait_fails :: "'s driver \<Rightarrow> 's \<Rightarrow> exn \<Rightarrow> bool" where
  \<comment> \<open>One of the four bounded waits of the pagination cycle begun in state \<open>s\<close> raises
      \<open>e\<close>, the calls before it having succeeded.\<close>
  "wait_fails D s e =
     (case wait_table D s of Inl e' \<Rightarrow> e' = e | Inr (old_table_element, s1) \<Rightarrow>
      case wait_next D s1 of Inl e' \<Rightarrow> e' = e | Inr (next_button, s2) \<Rightarrow>
      case click D next_button s2 of Inl e' \<Rightarrow> False | Inr s3 \<Rightarrow>
      case wait_staleness D old_table_element s3 of Inl e' \<Rightarrow> e' = e | Inr s4 \<Rightarrow>
      case wait_table D s4 of Inl e' \<Rightarrow> e' = e | Inr _ \<Rightarrow> False)"

definition short_selling_row :: "string option \<Rightarrow> row" where
  \<comment> \<open>The row \<open>("01 Jan 2024", "Circular on Short Selling", "/x1")\<close>, the anchor with or
      without a \<open>title\<close> attribute.\<close>
  "short_selling_row ta =
     [\<lparr> cell_text = ''01 Jan 2024'', find_a = None \<rparr>,
      \<lparr> cell_text = ''Circular on Short Selling'',
        find_a = Some \<lparr> title_attr = ta, a_text = ''Circular on Short Selling'',
                        href = Some ''/x1'' \<rparr> \<rparr>]"

definition linkless :: row where
  \<comment> \<open>A row of two cells, the second without an anchor.\<close>
  "linkless =
     [\<lparr> cell_text = ''02 Jan 2024'', find_a = None \<rparr>,
      \<lparr> cell_text = ''No anchor here'', find_a = None \<rparr>]"

definition two_pages :: "row list list" where
  \<comment> \<open>A listing of two pages; the second page repeats the link of the first and has a row
      without an anchor.\<close>
  "two_pages =
     [[short_selling_row None],
      [short_selling_row (Some ''Short selling, again''), linkless]]"

section \<open>Properties\<close>

subsection \<open>The loop to the target page\<close>

lemma navigate_simps:
  "navigate D page_number current_page s =
     (if current_page < page_number then
        (case click_next D s of
           Inr s' \<Rightarrow> navigate D page_number (current_page + 1) s'
         | Inl e \<Rightarrow> if pagination_caught e then Not_reached current_page e else Raised e)
      else On_target s)"
  unfolding navigate_def
  by (subst navigate_cycles.simps) (simp split: sum.splits prod.splits)

subsection \<open>Rows and records\<close>

lemma extract_rows_iff:
  "c \<in> set (extract_rows rows) \<longleftrightarrow> (\<exists>r\<in>set rows. parse_row r = Some c)"
  by (induction rows) (auto split: option.splits)

lemma extract_rows_append:
  "extract_rows (xs @ ys) = extract_rows xs @ extract_rows ys"
  by (induction xs) (auto split: option.splits)

lemma length_extract_rows: "length (extract_rows rows) \<le> length rows"
  by (induction rows) (auto split: option.splits)

lemma parse_row_Some:
  "parse_row r = Some c \<Longrightarrow>
   \<exists>link_tag. length r = 2 \<and> find_a (r ! 1) = Some link_tag \<and>
     c = \<lparr> Date = strip (cell_text (r ! 0)),
           Title = (case title_attr link_tag of Some t \<Rightarrow> t | None \<Rightarrow> strip (a_text link_tag)),
           Link = absolute_link (href link_tag) \<rparr>"
  by (auto simp: parse_row_def split: if_splits option.splits)

lemma absolute_link_cases:
  "absolute_link h = None \<or> absolute_link h = Some [] \<or>
   (\<exists>l. absolute_link h = Some l \<and> (startswith l ''http://'' \<or> startswith l ''https://''))"
  by (auto simp: absolute_link_def startswith_def base_url_def split: option.splits)

subsection \<open>Where the records of a result come from\<close>

lemma served_rowsI:
  "page_source D s = Inr (Some (Some rows), s') \<Longrightarrow> r \<in> set rows \<Longrightarrow> r \<in> served_rows D"
  unfolding served_rows_def by blast

lemma extract_target_page_rows:
  assumes "extract_target_page D s = Inr df" and "c \<in> set df"
  shows "\<exists>r\<in>served_rows D. parse_row r = Some c"
  using assms
  by (auto simp: extract_target_page_def extract_rows_iff
      split: sum.splits prod.splits option.splits if_splits)
    (blast intro: served_rowsI)

lemma extract_from_session_rows:
  assumes "extract_from_session D n s0 = Inr df" and "c \<in> set df"
  shows "\<exists>r\<in>served_rows D. parse_row r = Some c"
  using assms
  by (auto simp: extract_from_session_def split: sum.splits navigation.splits
      dest: extract_target_page_rows)

lemma extract_page_rows:
  assumes "extract_sebi_circulars_on_page D n = Inr df" and "c \<in> set df"
  shows "\<exists>r\<in>served_rows D. parse_row r = Some c"
  using assms
  by (auto simp: extract_sebi_circulars_on_page_def initialize_driver_def
      split: sum.splits option.splits if_splits dest: extract_from_session_rows)

lemma app_extract_page_rows:
  assumes "app_extract_sebi_circulars_on_page D n = Inr df" and "c \<in> set df"
  shows "\<exists>r\<in>served_rows D. parse_row r = Some c"
  using assms
  by (auto simp: app_extract_sebi_circulars_on_page_def split: sum.splits option.splits if_splits
      dest: extract_from_session_rows)

lemma scrape_page_rows:
  assumes "scrape_page D n i s acc = (acc', nxt)" and "c \<in> set acc'"
  shows "c \<in> set acc \<or> (\<exists>r\<in>served_rows D. parse_row r = Some c)"
  using assms
  by (auto simp: scrape_page_def extract_rows_iff Let_def
      split: sum.splits prod.splits option.splits if_splits)
    (blast intro: served_rowsI)+

lemma scrape_pages_rows:
  "c \<in> set (scrape_pages D n idxs s acc) \<Longrightarrow>
   c \<in> set acc \<or> (\<exists>r\<in>served_rows D. parse_row r = Some c)"
proof (induction idxs arbitrary: s acc)
  case Nil
  then show ?case by simp
next
  case (Cons i idxs)
  obtain acc' nxt where sp: "scrape_page D n i s acc = (acc', nxt)"
    by (cases "scrape_page D n i s acc")
  show ?case
  proof (cases nxt)
    case None
    with Cons.prems sp have "c \<in> set acc'" by simp
    with sp show ?thesis by (rule scrape_page_rows)
  next
    case (Some s')
    with Cons.prems sp have "c \<in> set (scrape_pages D n idxs s' acc')" by simp
    then have "c \<in> set acc' \<or> (\<exists>r\<in>served_rows D. parse_row r = Some c)"
      by (rule Cons.IH)
    with sp show ?thesis by (blast dest: scrape_page_rows)
  qed
qed

lemma drop_duplicates_seen_subset:
  "set (drop_duplicates_seen seen df) \<subseteq> set df"
  by (induction df arbitrary: seen) auto

lemma drop_duplicates_subset: "set (drop_duplicates df) \<subseteq> set df"
  by (simp add: drop_duplicates_def drop_duplicates_seen_subset)

lemma scrape_recent_rows:
  assumes "scrape_recent_circulars D n = Inr df" and "c \<in> set df"
  shows "\<exists>r\<in>served_rows D. parse_row r = Some c"
proof -
  from assms obtain s1 where "c \<in> set (drop_duplicates (scrape_pages D n [1..n] s1 []))"
    by (auto simp: scrape_recent_circulars_def split: sum.splits option.splits if_splits)
  then have "c \<in> set (scrape_pages D n [1..n] s1 [])"
    using drop_duplicates_subset by blast
  then show ?thesis by (auto dest: scrape_pages_rows)
qed

lemma static_site_simps [simp]:
  "launch (static_site pages) = Inr 0"
  "get_url (static_site pages) s = Inr 0"
  "wait_table (static_site pages) s =
     (if s < length pages then Inr (s, s) else Inl TimeoutException)"
  "wait_next (static_site pages) s =
     (if Suc s < length pages then Inr (length pages, s) else Inl TimeoutException)"
  "click (static_site pages) el s = Inr (Suc s)"
  "wait_staleness (static_site pages) el s = Inr s"
  "page_source (static_site pages) s =
     (if s < length pages then Inr (Some (Some (pages ! s)), s) else Inr (None, s))"
  by (simp_all add: static_site_def)

lemma scraper_result_rows:
  assumes "extract_sebi_circulars_on_page D n = Inr df \<or>
           app_extract_sebi_circulars_on_page D n = Inr df \<or>
           scrape_recent_circulars D n = Inr df"
    and "c \<in> set df"
  shows "\<exists>r\<in>served_rows D. parse_row r = Some c"
  using assms extract_page_rows app_extract_page_rows scrape_recent_rows by blast


subsection \<open>Requests for a page or a page count that is not positive\<close>

text \<open>
  C10. For every \<open>page_number \<le> 0\<close>, \<open>extract_sebi_circulars_on_page\<close> (in \<open>new.py\<close> and
  in \<open>app.py\<close>) returns an empty DataFrame without raising, and for every
  \<open>num_pages \<le> 0\<close>, \<open>scrape_recent_circulars\<close> returns an empty DataFrame without raising,
  whatever the browser would do: the test comes before the browser is launched.
\<close>

theorem nonpositive_request_absorbed:
  "(page_number \<le> 0 \<longrightarrow>
      extract_sebi_circulars_on_page D page_number = Inr [] \<and>
      app_extract_sebi_circulars_on_page D page_number = Inr []) \<and>
   (num_pages \<le> 0 \<longrightarrow> scrape_recent_circulars D' num_pages = Inr [])"
  by (simp add: extract_sebi_circulars_on_page_def app_extract_sebi_circulars_on_page_def
      scrape_recent_circulars_def)

text \<open>The page number 0 and the page count -3, on a listing that has a page to show.\<close>

theorem nonpositive_request_absorbed_witness:
  "(0::int) \<le> 0 \<and> (-3::int) \<le> 0 \<and>
   extract_sebi_circulars_on_page (static_site [[short_selling_row None]]) 0 = Inr [] \<and>
   app_extract_sebi_circulars_on_page (static_site [[short_selling_row None]]) 0 = Inr [] \<and>
   scrape_recent_circulars (static_site [[short_selling_row None]]) (-3) = Inr []"
  using nonpositive_request_absorbed
    [of 0 "static_site [[short_selling_row None]]" "-3" "static_site [[short_selling_row None]]"]
  by simp

subsection \<open>Rows without a link\<close>

text \<open>
  C9. A row of exactly two cells whose second cell contains no anchor produces no record:
  the loop over the rows, shared by page extraction and harvesting, gives the same records
  with and without it. So every record of a DataFrame returned by either page extractor
  or by the harvester is the record of a row that the browser served, with two cells and
  an anchor in the second.
\<close>

theorem linkless_row_skipped:
  "(length cells = 2 \<and> find_a (cells ! 1) = None \<longrightarrow>
      extract_rows (before @ cells # after) = extract_rows (before @ after)) \<and>
   ((extract_sebi_circulars_on_page D n = Inr df \<or>
     app_extract_sebi_circulars_on_page D n = Inr df \<or>
     scrape_recent_circulars D n = Inr df) \<longrightarrow>
    (\<forall>c\<in>set df. \<exists>r\<in>served_rows D. length r = 2 \<and> find_a (r ! 1) \<noteq> None \<and>
                                    parse_row r = Some c))"
proof (intro conjI impI ballI)
  assume "length cells = 2 \<and> find_a (cells ! 1) = None"
  then have "parse_row cells = None" by (simp add: parse_row_def)
  then show "extract_rows (before @ cells # after) = extract_rows (before @ after)"
    by (simp add: extract_rows_append)
next
  fix c
  assume "extract_sebi_circulars_on_page D n = Inr df \<or>
          app_extract_sebi_circulars_on_page D n = Inr df \<or>
          scrape_recent_circulars D n = Inr df" and "c \<in> set df"
  then obtain r where r: "r \<in> served_rows D" "parse_row r = Some c"
    using scraper_result_rows by blast
  from r(2) have "length r = 2 \<and> find_a (r ! 1) \<noteq> None"
    by (auto dest: parse_row_Some)
  with r show "\<exists>r\<in>served_rows D. length r = 2 \<and> find_a (r ! 1) \<noteq> None \<and> parse_row r = Some c"
    by blast
qed


text \<open>A page with the row of the scenario followed by a row without an anchor.\<close>

theorem linkless_row_skipped_witness:
  "length linkless = 2 \<and> find_a (linkless ! 1) = None \<and>
   extract_rows ([short_selling_row None] @ linkless # []) =
     extract_rows ([short_selling_row None] @ []) \<and>
   extract_sebi_circulars_on_page (static_site [[short_selling_row None, linkless]]) 1 =
     Inr [\<lparr> Date = ''01 Jan 2024'', Title = ''Circular on Short Selling'',
            Link = Some ''https://www.sebi.gov.in/x1'' \<rparr>] \<and>
   (\<exists>r\<in>served_rows (static_site [[short_selling_row None, linkless]]).
      length r = 2 \<and> find_a (r ! 1) \<noteq> None \<and>
      parse_row r = Some \<lparr> Date = ''01 Jan 2024'', Title = ''Circular on Short Selling'',
                            Link = Some ''https://www.sebi.gov.in/x1'' \<rparr>)"
proof -
  let ?D = "static_site [[short_selling_row None, linkless]]"
  let ?c = "\<lparr> Date = ''01 Jan 2024'', Title = ''Circular on Short Selling'',
            Link = Some ''https://www.sebi.gov.in/x1'' \<rparr>"
  have l: "length linkless = 2 \<and> find_a (linkless ! 1) = None"
    by (simp add: linkless_def)
  have nav: "navigate ?D 1 1 0 = On_target 0"
    by (simp add: navigate_simps)
  have none: "parse_row linkless = None"
    by (simp add: parse_row_def linkless_def)
  have some: "parse_row (short_selling_row None) = Some ?c"
    by (simp add: short_selling_row_def parse_row_def strip_def isspace_def absolute_link_def
        startswith_def base_url_def)
  have run: "extract_sebi_circulars_on_page ?D 1 = Inr [?c]"
    by (simp add: extract_sebi_circulars_on_page_def initialize_driver_def extract_from_session_def
        nav extract_target_page_def none some)
  from linkless_row_skipped [of linkless "[short_selling_row None]" "[]" ?D 1 "[?c]"] l run
  have "extract_rows ([short_selling_row None] @ linkless # []) =
          extract_rows ([short_selling_row None] @ []) \<and>
        (\<forall>c\<in>set [?c]. \<exists>r\<in>served_rows ?D.
            length r = 2 \<and> find_a (r ! 1) \<noteq> None \<and> parse_row r = Some c)"
    by blast
  with l run show ?thesis by simp
qed

subsection \<open>What a row becomes\<close>

text \<open>
  C8. A row whose cell count is not two is skipped. A row of exactly two cells with an
  anchor in the second becomes the record whose date is the trimmed text of the first
  cell, whose title is the anchor's \<open>title\<close> attribute when it has one and the anchor's
  trimmed text otherwise, and whose link is the anchor's \<open>href\<close> made absolute. On the
  target page, the extractor returns the records of the rows of the table. The row
  \<open>("01 Jan 2024", "Circular on Short Selling", "/x1")\<close>, alone on the first page, gives one
  record with the link \<open>https://www.sebi.gov.in/x1\<close>, in \<open>new.py\<close> and in \<open>app.py\<close>.
\<close>

theorem row_parsed:
  "(length other \<noteq> 2 \<longrightarrow>
      extract_rows (before @ other # after) = extract_rows (before @ after)) \<and>
   (length cells = 2 \<and> find_a (cells ! 1) = Some link_tag \<longrightarrow>
      extract_rows (before @ cells # after) =
        extract_rows before @
        \<lparr> Date = strip (cell_text (cells ! 0)),
          Title = (case title_attr link_tag of Some t \<Rightarrow> t | None \<Rightarrow> strip (a_text link_tag)),
          Link = absolute_link (href link_tag) \<rparr> # extract_rows after) \<and>
   (wait_table D s = Inr (el, s1) \<and> page_source D s1 = Inr (Some (Some rows), s2) \<longrightarrow>
      extract_target_page D s = Inr (extract_rows rows)) \<and>
   (ta = None \<or> ta = Some ''Circular on Short Selling'' \<longrightarrow>
      extract_sebi_circulars_on_page (static_site [[short_selling_row ta]]) 1 =
        Inr [\<lparr> Date = ''01 Jan 2024'', Title = ''Circular on Short Selling'',
               Link = Some ''https://www.sebi.gov.in/x1'' \<rparr>] \<and>
      app_extract_sebi_circulars_on_page (static_site [[short_selling_row ta]]) 1 =
        Inr [\<lparr> Date = ''01 Jan 2024'', Title = ''Circular on Short Selling'',
               Link = Some ''https://www.sebi.gov.in/x1'' \<rparr>])"
proof (intro conjI impI)
  assume "length other \<noteq> 2"
  then have "parse_row other = None" by (simp add: parse_row_def)
  then show "extract_rows (before @ other # after) = extract_rows (before @ after)"
    by (simp add: extract_rows_append)
next
  assume "length cells = 2 \<and> find_a (cells ! 1) = Some link_tag"
  then have "parse_row cells =
    Some \<lparr> Date = strip (cell_text (cells ! 0)),
           Title = (case title_attr link_tag of Some t \<Rightarrow> t | None \<Rightarrow> strip (a_text link_tag)),
           Link = absolute_link (href link_tag) \<rparr>"
    by (simp add: parse_row_def)
  then show "extract_rows (before @ cells # after) =
        extract_rows before @
        \<lparr> Date = strip (cell_text (cells ! 0)),
          Title = (case title_attr link_tag of Some t \<Rightarrow> t | None \<Rightarrow> strip (a_text link_tag)),
          Link = absolute_link (href link_tag) \<rparr> # extract_rows after"
    by (simp add: extract_rows_append)
next
  assume "wait_table D s = Inr (el, s1) \<and> page_source D s1 = Inr (Some (Some rows), s2)"
  then show "extract_target_page D s = Inr (extract_rows rows)"
    by (auto simp: extract_target_page_def)
next
  assume ta: "ta = None \<or> ta = Some ''Circular on Short Selling''"
  have rows: "extract_rows [short_selling_row ta] =
      [\<lparr> Date = ''01 Jan 2024'', Title = ''Circular on Short Selling'',
               Link = Some ''https://www.sebi.gov.in/x1'' \<rparr>]"
    using ta
    by (auto simp: short_selling_row_def parse_row_def strip_def isspace_def absolute_link_def
        startswith_def base_url_def)
  have nav: "navigate (static_site [p]) 1 1 0 = On_target 0" for p
    by (simp add: navigate_simps)
  have session: "extract_from_session (static_site [p]) 1 0 = Inr (extract_rows p)" for p
    by (simp add: extract_from_session_def nav extract_target_page_def)
  have full: "extract_from_session (static_site [[short_selling_row ta]]) 1 0 =
        Inr [\<lparr> Date = ''01 Jan 2024'', Title = ''Circular on Short Selling'',
               Link = Some ''https://www.sebi.gov.in/x1'' \<rparr>]"
    by (simp only: session rows)
  show "extract_sebi_circulars_on_page (static_site [[short_selling_row ta]]) 1 =
        Inr [\<lparr> Date = ''01 Jan 2024'', Title = ''Circular on Short Selling'',
               Link = Some ''https://www.sebi.gov.in/x1'' \<rparr>]"
    by (simp add: extract_sebi_circulars_on_page_def initialize_driver_def full)
  show "app_extract_sebi_circulars_on_page (static_site [[short_selling_row ta]]) 1 =
        Inr [\<lparr> Date = ''01 Jan 2024'', Title = ''Circular on Short Selling'',
               Link = Some ''https://www.sebi.gov.in/x1'' \<rparr>]"
    by (simp add: app_extract_sebi_circulars_on_page_def full)
qed

text \<open>A header row of one cell, and the row of the scenario on a one-page listing.\<close>

theorem row_parsed_witness:
  "length [\<lparr> cell_text = ''Date'', find_a = None \<rparr>] \<noteq> 2 \<and>
   length (short_selling_row None) = 2 \<and>
   extract_rows ([] @ [\<lparr> cell_text = ''Date'', find_a = None \<rparr>] # []) = extract_rows ([] @ []) \<and>
   extract_rows ([] @ short_selling_row None # []) =
     [\<lparr> Date = ''01 Jan 2024'', Title = ''Circular on Short Selling'',
        Link = Some ''https://www.sebi.gov.in/x1'' \<rparr>] \<and>
   extract_target_page (static_site [[short_selling_row None]]) 0 =
     Inr (extract_rows [short_selling_row None]) \<and>
   extract_sebi_circulars_on_page (static_site [[short_selling_row None]]) 1 =
     Inr [\<lparr> Date = ''01 Jan 2024'', Title = ''Circular on Short Selling'',
            Link = Some ''https://www.sebi.gov.in/x1'' \<rparr>]"
proof -
  let ?tag = "\<lparr> title_attr = None, a_text = ''Circular on Short Selling'', href = Some ''/x1'' \<rparr>"
  have cells: "length (short_selling_row None) = 2 \<and> find_a (short_selling_row None ! 1) = Some ?tag"
    by (simp add: short_selling_row_def)
  have fields: "strip (cell_text (short_selling_row None ! 0)) = ''01 Jan 2024'' \<and>
      strip (a_text ?tag) = ''Circular on Short Selling'' \<and>
      absolute_link (href ?tag) = Some ''https://www.sebi.gov.in/x1''"
    by (simp add: short_selling_row_def strip_def isspace_def absolute_link_def startswith_def
        base_url_def)
  have page: "wait_table (static_site [[short_selling_row None]]) 0 = Inr (0, 0) \<and>
      page_source (static_site [[short_selling_row None]]) 0 =
        Inr (Some (Some [short_selling_row None]), 0)"
    by simp
  from row_parsed [where other = "[\<lparr> cell_text = ''Date'', find_a = None \<rparr>]"
      and before = "[]" and after = "[]" and cells = "short_selling_row None" and link_tag = ?tag
      and D = "static_site [[short_selling_row None]]"
      and s = 0 and el = 0 and ?s1.0 = 0 and ?s2.0 = 0 and rows = "[short_selling_row None]"
      and ta = None] cells fields page
  show ?thesis by simp
qed

subsection \<open>Links are absolute\<close>

text \<open>
  C6. In every record returned by either page extractor or by the harvester, the link is
  empty (missing, when the anchor has no \<open>href\<close>, or the empty string) or starts with
  \<open>http://\<close> or \<open>https://\<close>; and a row whose \<open>href\<close> is not empty and starts with neither
  is stored with the link \<open>https://www.sebi.gov.in\<close> followed by the \<open>href\<close>.
\<close>

theorem links_absolute:
  "((extract_sebi_circulars_on_page D n = Inr df \<or>
     app_extract_sebi_circulars_on_page D n = Inr df \<or>
     scrape_recent_circulars D n = Inr df) \<longrightarrow>
    (\<forall>c\<in>set df. Link c = None \<or> Link c = Some [] \<or>
        (\<exists>l. Link c = Some l \<and> (startswith l ''http://'' \<or> startswith l ''https://'')))) \<and>
   (length cells = 2 \<and> find_a (cells ! 1) = Some link_tag \<and> href link_tag = Some h \<and> h \<noteq> [] \<and>
    \<not> startswith h ''http://'' \<and> \<not> startswith h ''https://'' \<longrightarrow>
    map_option Link (parse_row cells) = Some (Some (''https://www.sebi.gov.in'' @ h)))"
proof (intro conjI impI ballI)
  fix c
  assume "extract_sebi_circulars_on_page D n = Inr df \<or>
          app_extract_sebi_circulars_on_page D n = Inr df \<or>
          scrape_recent_circulars D n = Inr df" and "c \<in> set df"
  then obtain r where "parse_row r = Some c"
    using scraper_result_rows by blast
  from parse_row_Some [OF this] obtain link_tag :: anchor where
    "c = \<lparr> Date = strip (cell_text (r ! 0)),
           Title = (case title_attr link_tag of Some t \<Rightarrow> t | None \<Rightarrow> strip (a_text link_tag)),
           Link = absolute_link (href link_tag) \<rparr>"
    by blast
  then have "Link c = absolute_link (href link_tag)" by simp
  then show "Link c = None \<or> Link c = Some [] \<or>
        (\<exists>l. Link c = Some l \<and> (startswith l ''http://'' \<or> startswith l ''https://''))"
    using absolute_link_cases [of "href link_tag"] by simp
next
  assume "length cells = 2 \<and> find_a (cells ! 1) = Some link_tag \<and> href link_tag = Some h \<and> h \<noteq> [] \<and>
    \<not> startswith h ''http://'' \<and> \<not> startswith h ''https://''"
  then show "map_option Link (parse_row cells) = Some (Some (''https://www.sebi.gov.in'' @ h))"
    by (simp add: parse_row_def absolute_link_def base_url_def)
qed

text \<open>The relative link \<open>/x1\<close> on a one-page listing.\<close>

theorem links_absolute_witness:
  "extract_sebi_circulars_on_page (static_site [[short_selling_row None]]) 1 =
     Inr [\<lparr> Date = ''01 Jan 2024'', Title = ''Circular on Short Selling'',
            Link = Some ''https://www.sebi.gov.in/x1'' \<rparr>] \<and>
   startswith ''https://www.sebi.gov.in/x1'' ''https://'' \<and>
   \<not> startswith ''/x1'' ''http://'' \<and> \<not> startswith ''/x1'' ''https://'' \<and>
   map_option Link (parse_row (short_selling_row None)) = Some (Some ''https://www.sebi.gov.in/x1'')"
proof -
  let ?tag = "\<lparr> title_attr = None, a_text = ''Circular on Short Selling'', href = Some ''/x1'' \<rparr>"
  let ?c = "\<lparr> Date = ''01 Jan 2024'', Title = ''Circular on Short Selling'',
            Link = Some ''https://www.sebi.gov.in/x1'' \<rparr>"
  let ?D = "static_site [[short_selling_row None]]"
  have nav: "navigate ?D 1 1 0 = On_target 0"
    by (simp add: navigate_simps)
  have rows: "extract_rows [short_selling_row None] = [?c]"
    by (simp add: short_selling_row_def parse_row_def strip_def isspace_def absolute_link_def
        startswith_def base_url_def)
  have "extract_from_session ?D 1 0 = Inr (extract_rows [short_selling_row None])"
    by (simp add: extract_from_session_def nav extract_target_page_def)
  then have run: "extract_sebi_circulars_on_page ?D 1 = Inr [?c]"
    by (simp only: rows) (simp add: extract_sebi_circulars_on_page_def initialize_driver_def)
  have rel: "length (short_selling_row None) = 2 \<and> find_a (short_selling_row None ! 1) = Some ?tag \<and>
      href ?tag = Some ''/x1'' \<and> ''/x1'' \<noteq> [] \<and>
      \<not> startswith ''/x1'' ''http://'' \<and> \<not> startswith ''/x1'' ''https://''"
    by (simp add: short_selling_row_def startswith_def)
  from links_absolute [where D = ?D and n = 1 and df = "[?c]"
      and cells = "short_selling_row None" and link_tag = ?tag and h = "''/x1''"] run rel
  show ?thesis by (simp add: startswith_def)
qed


subsection \<open>Pagination that cannot go on\<close>

lemma wait_fails_click_next:
  assumes "wait_fails D s e"
  shows "click_next D s = Inl e"
proof (cases "wait_table D s")
  case (Inl e')
  with assms show ?thesis by (simp add: wait_fails_def click_next_def)
next
  case (Inr p)
  obtain old s1 where p: "p = (old, s1)" by (cases p)
  note w1 = Inr [unfolded p]
  show ?thesis
  proof (cases "wait_next D s1")
    case (Inl e')
    with assms w1 show ?thesis by (simp add: wait_fails_def click_next_def)
  next
    case (Inr q)
    obtain btn s2 where q: "q = (btn, s2)" by (cases q)
    note w2 = Inr [unfolded q]
    show ?thesis
    proof (cases "click D btn s2")
      case (Inl e')
      with assms w1 w2 show ?thesis by (simp add: wait_fails_def)
    next
      case (Inr s3)
      note w3 = Inr
      show ?thesis
      proof (cases "wait_staleness D old s3")
        case (Inl e')
        with assms w1 w2 w3 show ?thesis by (simp add: wait_fails_def click_next_def)
      next
        case (Inr s4)
        with assms w1 w2 w3 show ?thesis
          by (cases "wait_table D s4") (auto simp: wait_fails_def click_next_def)
      qed
    qed
  qed
qed

lemma navigate_cycles_advance:
  "advance D k s = Some s' \<Longrightarrow> c + int k \<le> n \<Longrightarrow>
   navigate_cycles D n c s =
     (fst (navigate_cycles D n (c + int k) s'), k + snd (navigate_cycles D n (c + int k) s'))"
proof (induction k arbitrary: s c)
  case 0
  then show ?case by simp
next
  case (Suc k)
  from Suc.prems(1) obtain s1 where s1: "click_next D s = Inr s1" and adv: "advance D k s1 = Some s'"
    by (auto split: sum.splits)
  from Suc.prems(2) have lt: "c < n" and le: "(c + 1) + int k \<le> n" by simp_all
  have eq: "c + 1 + int k = c + int (Suc k)" by simp
  have "navigate_cycles D n c s =
        (fst (navigate_cycles D n (c + 1) s1), Suc (snd (navigate_cycles D n (c + 1) s1)))"
    using s1 lt by (subst navigate_cycles.simps) (simp split: prod.splits)
  also have "navigate_cycles D n (c + 1) s1 =
        (fst (navigate_cycles D n (c + 1 + int k) s'),
         k + snd (navigate_cycles D n (c + 1 + int k) s'))"
    using adv le by (rule Suc.IH)
  finally show ?case by (simp add: eq)
qed

lemma navigate_cycles_gives_up:
  "c < n \<Longrightarrow> click_next D s = Inl e \<Longrightarrow> pagination_caught e \<Longrightarrow>
   navigate_cycles D n c s = (Not_reached c e, 1)"
  by (subst navigate_cycles.simps) simp

lemma empty_page_extracted:
  "extract_sebi_circulars_on_page (static_site [[linkless]]) 1 = Inr [] \<and>
   app_extract_sebi_circulars_on_page (static_site [[linkless]]) 1 = Inr []"
proof -
  have nav: "navigate (static_site [[linkless]]) 1 1 0 = On_target 0"
    by (simp add: navigate_simps)
  have "parse_row linkless = None"
    by (simp add: parse_row_def linkless_def)
  then have "extract_from_session (static_site [[linkless]]) 1 0 = Inr []"
    by (simp add: extract_from_session_def nav extract_target_page_def)
  then show ?thesis
    by (simp add: extract_sebi_circulars_on_page_def app_extract_sebi_circulars_on_page_def
        initialize_driver_def)
qed

text \<open>
  C5, as amended. The browser is on page \<open>1 + k\<close> after \<open>k\<close> pagination cycles, short of
  the target page. If one of the bounded waits of the next cycle times out, or the Next
  control is not found, the loop stops at once: that cycle is the last one begun, \<open>k + 1\<close>
  in all, and the loop ends in its \<open>except\<close> branch with \<open>current_page = 1 + k\<close> and that
  exception, which the branch only logs. Both page extractors then return an empty
  DataFrame: nothing of what was reached, and no failure for the caller. In particular,
  on a listing of two pages the request for page 3 stops after two cycles with
  \<open>current_page = 2\<close> and returns an empty DataFrame.
\<close>

theorem pagination_stops_at_once:
  assumes "launch D = Inr s0" and "get_url D s0 = Inr s1"
    and "advance D k s1 = Some s" and "1 + int k < page_number"
    and "wait_fails D s e" and "e = TimeoutException \<or> e = NoSuchElementException"
  shows "navigate_cycles D page_number 1 s1 = (Not_reached (1 + int k) e, Suc k) \<and>
         extract_sebi_circulars_on_page D page_number = Inr [] \<and>
         app_extract_sebi_circulars_on_page D page_number = Inr [] \<and>
         navigate_cycles (static_site [p1, p2]) 3 1 0 = (Not_reached 2 TimeoutException, 2) \<and>
         extract_sebi_circulars_on_page (static_site [p1, p2]) 3 = Inr [] \<and>
         app_extract_sebi_circulars_on_page (static_site [p1, p2]) 3 = Inr []"
proof -
  have stops: "navigate_cycles D' n 1 t1 = (Not_reached (1 + int k') e', Suc k') \<and>
      extract_sebi_circulars_on_page D' n = Inr [] \<and>
      app_extract_sebi_circulars_on_page D' n = Inr []"
    if "launch D' = Inr t0" and "get_url D' t0 = Inr t1"
      and "advance D' k' t1 = Some t" and "1 + int k' < n"
      and "click_next D' t = Inl e'" and "pagination_caught e'"
    for D' :: "'b driver" and n t0 t1 t k' e'
  proof -
    have "navigate_cycles D' n 1 t1 =
        (fst (navigate_cycles D' n (1 + int k') t), k' + snd (navigate_cycles D' n (1 + int k') t))"
      using that(3,4) by (intro navigate_cycles_advance) simp_all
    moreover have "navigate_cycles D' n (1 + int k') t = (Not_reached (1 + int k') e', 1)"
      using that(4,5,6) by (rule navigate_cycles_gives_up)
    ultimately have cyc: "navigate_cycles D' n 1 t1 = (Not_reached (1 + int k') e', Suc k')"
      by simp
    then have nav: "navigate D' n 1 t1 = Not_reached (1 + int k') e'"
      by (simp add: navigate_def)
    have pos: "\<not> n \<le> 0"
      using that(4) by simp
    have session: "extract_from_session D' n t0 = Inr []"
      by (simp add: extract_from_session_def that(2) nav)
    have "extract_sebi_circulars_on_page D' n = Inr []"
      by (simp add: extract_sebi_circulars_on_page_def initialize_driver_def pos that(1) session)
    moreover have "app_extract_sebi_circulars_on_page D' n = Inr []"
      by (simp add: app_extract_sebi_circulars_on_page_def pos that(1) session)
    ultimately show ?thesis using cyc by simp
  qed
  have caught: "pagination_caught e"
    using assms(6) by (auto simp: pagination_caught_def)
  have fails: "click_next D s = Inl e"
    using assms(5) by (rule wait_fails_click_next)
  have general: "navigate_cycles D page_number 1 s1 = (Not_reached (1 + int k) e, Suc k) \<and>
      extract_sebi_circulars_on_page D page_number = Inr [] \<and>
      app_extract_sebi_circulars_on_page D page_number = Inr []"
    using assms(1-4) fails caught by (rule stops)
  have adv: "advance (static_site [p1, p2]) 1 0 = Some 1"
    by (simp add: click_next_def)
  have c2: "click_next (static_site [p1, p2]) 1 = Inl TimeoutException"
    by (simp add: click_next_def)
  have l0: "launch (static_site [p1, p2]) = Inr 0" and g0: "get_url (static_site [p1, p2]) 0 = Inr 0"
    by simp_all
  have lt: "1 + int 1 < (3::int)" by simp
  have pc: "pagination_caught TimeoutException"
    by (simp add: pagination_caught_def)
  have "navigate_cycles (static_site [p1, p2]) 3 1 0 = (Not_reached (1 + int 1) TimeoutException, Suc 1) \<and>
      extract_sebi_circulars_on_page (static_site [p1, p2]) 3 = Inr [] \<and>
      app_extract_sebi_circulars_on_page (static_site [p1, p2]) 3 = Inr []"
    using l0 g0 adv lt c2 pc by (rule stops)
  with general show ?thesis by simp
qed

text \<open>A listing of two pages and the request for page 3.\<close>

theorem pagination_stops_at_once_witness:
  "advance (static_site [[short_selling_row None], [linkless]]) 1 0 = Some 1 \<and>
   1 + int 1 < 3 \<and>
   wait_fails (static_site [[short_selling_row None], [linkless]]) 1 TimeoutException \<and>
   navigate_cycles (static_site [[short_selling_row None], [linkless]]) 3 1 0 =
     (Not_reached 2 TimeoutException, 2) \<and>
   extract_sebi_circulars_on_page (static_site [[short_selling_row None], [linkless]]) 3 = Inr [] \<and>
   app_extract_sebi_circulars_on_page (static_site [[short_selling_row None], [linkless]]) 3 = Inr []"
proof -
  let ?D = "static_site [[short_selling_row None], [linkless]]"
  have adv: "advance ?D 1 0 = Some 1"
    by (simp add: click_next_def)
  have wf: "wait_fails ?D 1 TimeoutException"
    by (simp add: wait_fails_def)
  from pagination_stops_at_once [where D = ?D and ?s0.0 = 0 and ?s1.0 = 0 and k = 1 and s = 1
      and page_number = 3 and e = TimeoutException and ?p1.0 = "[]" and ?p2.0 = "[]"] adv wf
  show ?thesis by simp
qed

text \<open>
  C5 as stated does not hold: the request for page 3 of a listing of two pages does not
  fail, and what it returns carries no page number. It returns the empty DataFrame, as
  does the request for page 1 of a listing whose only page has no record.
\<close>

theorem pagination_exhausted_counterexample:
  "extract_sebi_circulars_on_page (static_site two_pages) 3 = Inr [] \<and>
   app_extract_sebi_circulars_on_page (static_site two_pages) 3 = Inr [] \<and>
   extract_sebi_circulars_on_page (static_site [[linkless]]) 1 = Inr [] \<and>
   app_extract_sebi_circulars_on_page (static_site [[linkless]]) 1 = Inr []"
proof -
  have len: "length two_pages = 2"
    by (simp add: two_pages_def)
  have c1: "click_next (static_site two_pages) 0 = Inr 1"
    by (simp add: click_next_def len)
  have c2: "click_next (static_site two_pages) 1 = Inl TimeoutException"
    by (simp add: click_next_def len)
  have "navigate (static_site two_pages) 3 1 0 = navigate (static_site two_pages) 3 2 1"
    using c1 by (subst navigate_simps) simp
  also have "\<dots> = Not_reached 2 TimeoutException"
    using c2 by (subst navigate_simps) (simp add: pagination_caught_def)
  finally have "extract_from_session (static_site two_pages) 3 0 = Inr []"
    by (simp add: extract_from_session_def)
  then have "extract_sebi_circulars_on_page (static_site two_pages) 3 = Inr [] \<and>
      app_extract_sebi_circulars_on_page (static_site two_pages) 3 = Inr []"
    by (simp add: extract_sebi_circulars_on_page_def app_extract_sebi_circulars_on_page_def
        initialize_driver_def)
  with empty_page_extracted show ?thesis by simp
qed


subsection \<open>The harvested corpus\<close>

lemma drop_duplicates_seen_distinct:
  "distinct (map Link (drop_duplicates_seen seen df)) \<and>
   Link ` set (drop_duplicates_seen seen df) \<inter> set seen = {}"
proof (induction df arbitrary: seen)
  case Nil
  then show ?case by simp
next
  case (Cons r rs)
  show ?case
  proof (cases "Link r \<in> set seen")
    case True
    with Cons.IH [of seen] show ?thesis by simp
  next
    case False
    with Cons.IH [of "Link r # seen"] show ?thesis by auto
  qed
qed

lemma drop_duplicates_seen_links:
  "Link ` set (drop_duplicates_seen seen df) = Link ` set df - set seen"
proof (induction df arbitrary: seen)
  case Nil
  then show ?case by simp
next
  case (Cons r rs)
  show ?case
  proof (cases "Link r \<in> set seen")
    case True
    with Cons.IH [of seen] show ?thesis by auto
  next
    case False
    with Cons.IH [of "Link r # seen"] show ?thesis by auto
  qed
qed

lemma drop_duplicates_seen_first:
  "r \<in> set (drop_duplicates_seen seen df) \<Longrightarrow> find (\<lambda>x. Link x = Link r) df = Some r"
proof (induction df arbitrary: seen)
  case Nil
  then show ?case by simp
next
  case (Cons a rs)
  show ?case
  proof (cases "Link a \<in> set seen")
    case True
    with Cons.prems have r: "r \<in> set (drop_duplicates_seen seen rs)" by simp
    then have "Link r \<notin> set seen"
      using drop_duplicates_seen_distinct [of seen rs] by blast
    with True have "Link a \<noteq> Link r" by auto
    with Cons.IH [OF r] show ?thesis by simp
  next
    case False
    with Cons.prems have "r = a \<or> r \<in> set (drop_duplicates_seen (Link a # seen) rs)" by simp
    then show ?thesis
    proof
      assume "r = a"
      then show ?thesis by simp
    next
      assume r: "r \<in> set (drop_duplicates_seen (Link a # seen) rs)"
      then have "Link r \<notin> set (Link a # seen)"
        using drop_duplicates_seen_distinct [of "Link a # seen" rs] by blast
      then have "Link a \<noteq> Link r" by auto
      with Cons.IH [OF r] show ?thesis by simp
    qed
  qed
qed

lemma drop_duplicates_seen_subseq: "subseq (drop_duplicates_seen seen df) df"
  by (induction df arbitrary: seen) auto

lemma length_drop_duplicates: "length (drop_duplicates df) \<le> length df"
  unfolding drop_duplicates_def by (rule list_emb_length) (rule drop_duplicates_seen_subseq)

lemma scrape_page_length:
  assumes "scrape_page D n i s acc = (acc', nxt)"
    and "\<And>s rows s'. page_source D s = Inr (Some (Some rows), s') \<Longrightarrow> length rows \<le> m"
  shows "length acc' \<le> length acc + m"
proof (cases "wait_table D s")
  case (Inl e)
  with assms(1) show ?thesis by (simp add: scrape_page_def)
next
  case (Inr p)
  obtain el s1 where p: "p = (el, s1)" by (cases p)
  note w = Inr [unfolded p]
  show ?thesis
  proof (cases "page_source D s1")
    case (Inl e)
    with assms(1) w show ?thesis by (simp add: scrape_page_def)
  next
    case (Inr q)
    obtain t s2 where q: "q = (t, s2)" by (cases q)
    note ps = Inr [unfolded q]
    show ?thesis
    proof (cases t)
      case None
      with assms(1) w ps show ?thesis by (simp add: scrape_page_def)
    next
      case (Some body)
      show ?thesis
      proof (cases body)
        case None
        with assms(1) w ps Some show ?thesis by (simp add: scrape_page_def)
      next
        case (Some rows)
        with ps \<open>t = Some body\<close> have "page_source D s1 = Inr (Some (Some rows), s2)" by simp
        then have "length rows \<le> m" by (rule assms(2))
        then have le: "length (extract_rows rows) \<le> m"
          using length_extract_rows [of rows] by simp
        from assms(1) w ps \<open>t = Some body\<close> Some have "acc' = acc @ extract_rows rows"
          by (auto simp: scrape_page_def Let_def split: if_splits sum.splits)
        with le show ?thesis by simp
      qed
    qed
  qed
qed

lemma scrape_pages_length:
  assumes "\<And>s rows s'. page_source D s = Inr (Some (Some rows), s') \<Longrightarrow> length rows \<le> m"
  shows "length (scrape_pages D n idxs s acc) \<le> length acc + length idxs * m"
proof (induction idxs arbitrary: s acc)
  case Nil
  then show ?case by simp
next
  case (Cons i idxs)
  obtain acc' nxt where sp: "scrape_page D n i s acc = (acc', nxt)"
    by (cases "scrape_page D n i s acc")
  then have le: "length acc' \<le> length acc + m"
    using assms by (rule scrape_page_length)
  show ?case
  proof (cases nxt)
    case None
    with sp le show ?thesis by simp
  next
    case (Some s')
    have "length (scrape_pages D n idxs s' acc') \<le> length acc' + length idxs * m"
      by (rule Cons.IH)
    with sp Some le show ?thesis by simp
  qed
qed

lemma harvest_prefix_scrape_pages:
  "harvest_prefix D n k s1 = Some (acc, s) \<Longrightarrow> int k \<le> n \<Longrightarrow>
   scrape_pages D n [1..n] s1 [] = scrape_pages D n [int k + 1..n] s acc"
proof (induction k arbitrary: acc s)
  case 0
  then show ?case by simp
next
  case (Suc k)
  from Suc.prems(1) obtain acc0 s' where
    hp: "harvest_prefix D n k s1 = Some (acc0, s')" and
    sp: "scrape_page D n (int (Suc k)) s' acc0 = (acc, Some s)"
    by (auto split: option.splits prod.splits)
  from Suc.prems(2) have le: "int k \<le> n" and lt: "int k + 1 \<le> n" by simp_all
  have "scrape_pages D n [1..n] s1 [] = scrape_pages D n [int k + 1..n] s' acc0"
    using hp le by (rule Suc.IH)
  also have "[int k + 1..n] = (int k + 1) # [int k + 1 + 1..n]"
    using lt by (simp add: upto_rec1)
  also have "scrape_pages D n ((int k + 1) # [int k + 1 + 1..n]) s' acc0 =
             scrape_pages D n [int k + 1 + 1..n] s acc"
    using sp by (simp add: add.commute)
  finally show ?case by (simp add: add.commute add.left_commute)
qed

lemma scrape_recent_session:
  "0 < n \<Longrightarrow> launch D = Inr s0 \<Longrightarrow> get_url D s0 = Inr s1 \<Longrightarrow>
   scrape_recent_circulars D n = Inr (drop_duplicates (scrape_pages D n [1..n] s1 []))"
  by (simp add: scrape_recent_circulars_def initialize_driver_def)


text \<open>
  C1. With \<open>num_pages \<ge> 1\<close> and at most \<open>max_rows\<close> rows in any table the browser shows,
  \<open>scrape_recent_circulars\<close> returns a corpus whose links are pairwise distinct and whose
  length is at most \<open>num_pages * max_rows\<close>; it raises only what launching the browser or
  loading the listing raised. Once the listing is loaded it always returns: the corpus is
  what was collected, in collection order, with for every link the first record that has
  it and no other. And if, after \<open>k\<close> pages collected, the page \<open>k + 1 < num_pages\<close> is
  collected and the advance to the next page then fails, with whatever exception, the
  corpus returned is everything collected so far, deduplicated.
\<close>

theorem harvest_corpus:
  assumes "1 \<le> num_pages"
    and "\<forall>s rows s'. page_source D s = Inr (Some (Some rows), s') \<longrightarrow> length rows \<le> max_rows"
  shows
    "(case scrape_recent_circulars D num_pages of
        Inr corpus \<Rightarrow> distinct (map Link corpus) \<and> length corpus \<le> nat num_pages * max_rows
      | Inl e \<Rightarrow> (launch D = Inl e \<and> \<not> is_WebDriverException e) \<or>
                 (\<exists>s0. launch D = Inr s0 \<and> get_url D s0 = Inl e)) \<and>
     (launch D = Inr s0 \<and> get_url D s0 = Inr s1 \<longrightarrow>
        (\<exists>corpus. scrape_recent_circulars D num_pages = Inr corpus \<and>
           subseq corpus (scrape_pages D num_pages [1..num_pages] s1 []) \<and>
           (\<forall>r\<in>set corpus.
              find (\<lambda>x. Link x = Link r) (scrape_pages D num_pages [1..num_pages] s1 []) = Some r) \<and>
           Link ` set corpus = Link ` set (scrape_pages D num_pages [1..num_pages] s1 []))) \<and>
     (launch D = Inr s0 \<and> get_url D s0 = Inr s1 \<and>
      harvest_prefix D num_pages k s1 = Some (collected, s) \<and> int k + 1 < num_pages \<and>
      wait_table D s = Inr (el, sa) \<and> page_source D sa = Inr (Some (Some rows), sb) \<and>
      click_next D sb = Inl e \<longrightarrow>
        scrape_recent_circulars D num_pages = Inr (drop_duplicates (collected @ extract_rows rows)))"
proof (intro conjI impI)
  show "case scrape_recent_circulars D num_pages of
        Inr corpus \<Rightarrow> distinct (map Link corpus) \<and> length corpus \<le> nat num_pages * max_rows
      | Inl e \<Rightarrow> (launch D = Inl e \<and> \<not> is_WebDriverException e) \<or>
                 (\<exists>s0. launch D = Inr s0 \<and> get_url D s0 = Inl e)"
  proof (cases "scrape_recent_circulars D num_pages")
    case (Inl e)
    then have "(launch D = Inl e \<and> \<not> is_WebDriverException e) \<or>
               (\<exists>s0. launch D = Inr s0 \<and> get_url D s0 = Inl e)"
      by (auto simp: scrape_recent_circulars_def initialize_driver_def
          split: if_splits sum.splits option.splits)
    with Inl show ?thesis by simp
  next
    case (Inr corpus)
    then have "corpus = [] \<or> (\<exists>s1. corpus = drop_duplicates (scrape_pages D num_pages [1..num_pages] s1 []))"
      by (auto simp: scrape_recent_circulars_def split: if_splits sum.splits option.splits)
    then have "distinct (map Link corpus) \<and> length corpus \<le> nat num_pages * max_rows"
    proof
      assume "corpus = []"
      then show ?thesis by simp
    next
      assume "\<exists>s1. corpus = drop_duplicates (scrape_pages D num_pages [1..num_pages] s1 [])"
      then obtain s1 where c: "corpus = drop_duplicates (scrape_pages D num_pages [1..num_pages] s1 [])"
        by blast
      have d: "distinct (map Link corpus)"
        unfolding c drop_duplicates_def using drop_duplicates_seen_distinct by blast
      have "length corpus \<le> length (scrape_pages D num_pages [1..num_pages] s1 [])"
        unfolding c by (rule length_drop_duplicates)
      also have "\<dots> \<le> length ([] :: frame) + length [1..num_pages] * max_rows"
        using assms(2) by (intro scrape_pages_length) blast
      also have "\<dots> = nat num_pages * max_rows"
        by simp
      finally show ?thesis using d by simp
    qed
    with Inr show ?thesis by simp
  qed
next
  assume session: "launch D = Inr s0 \<and> get_url D s0 = Inr s1"
  let ?all = "scrape_pages D num_pages [1..num_pages] s1 []"
  have run: "scrape_recent_circulars D num_pages = Inr (drop_duplicates ?all)"
    using assms(1) session scrape_recent_session [of num_pages D s0 s1] by simp
  have "subseq (drop_duplicates ?all) ?all"
    unfolding drop_duplicates_def by (rule drop_duplicates_seen_subseq)
  moreover have "\<forall>r\<in>set (drop_duplicates ?all). find (\<lambda>x. Link x = Link r) ?all = Some r"
    unfolding drop_duplicates_def using drop_duplicates_seen_first by blast
  moreover have "Link ` set (drop_duplicates ?all) = Link ` set ?all"
    unfolding drop_duplicates_def by (simp add: drop_duplicates_seen_links)
  ultimately show "\<exists>corpus. scrape_recent_circulars D num_pages = Inr corpus \<and>
           subseq corpus ?all \<and>
           (\<forall>r\<in>set corpus. find (\<lambda>x. Link x = Link r) ?all = Some r) \<and>
           Link ` set corpus = Link ` set ?all"
    using run by blast
next
  assume h: "launch D = Inr s0 \<and> get_url D s0 = Inr s1 \<and>
      harvest_prefix D num_pages k s1 = Some (collected, s) \<and> int k + 1 < num_pages \<and>
      wait_table D s = Inr (el, sa) \<and> page_source D sa = Inr (Some (Some rows), sb) \<and>
      click_next D sb = Inl e"
  then have run: "scrape_recent_circulars D num_pages =
      Inr (drop_duplicates (scrape_pages D num_pages [1..num_pages] s1 []))"
    using assms(1) scrape_recent_session [of num_pages D s0 s1] by simp
  from h have "scrape_pages D num_pages [1..num_pages] s1 [] =
      scrape_pages D num_pages [int k + 1..num_pages] s collected"
    using harvest_prefix_scrape_pages [of D num_pages k s1 collected s] by simp
  also from h have "[int k + 1..num_pages] = (int k + 1) # [int k + 1 + 1..num_pages]"
    by (simp add: upto_rec1)
  also from h have "scrape_pages D num_pages ((int k + 1) # [int k + 1 + 1..num_pages]) s collected =
      collected @ extract_rows rows"
    by (simp add: scrape_page_def)
  finally show "scrape_recent_circulars D num_pages =
      Inr (drop_duplicates (collected @ extract_rows rows))"
    using run by simp
qed


text \<open>Five pages requested from a listing of two; the link of the second page repeats.\<close>

theorem harvest_corpus_witness:
  "(1::int) \<le> 5 \<and>
   harvest_prefix (static_site two_pages) 5 1 0 =
     Some ([\<lparr> Date = ''01 Jan 2024'', Title = ''Circular on Short Selling'',
              Link = Some ''https://www.sebi.gov.in/x1'' \<rparr>], 1) \<and>
   int 1 + 1 < (5::int) \<and>
   click_next (static_site two_pages) 1 = Inl TimeoutException \<and>
   extract_rows [short_selling_row (Some ''Short selling, again''), linkless] =
     [\<lparr> Date = ''01 Jan 2024'', Title = ''Short selling, again'',
        Link = Some ''https://www.sebi.gov.in/x1'' \<rparr>] \<and>
   scrape_recent_circulars (static_site two_pages) 5 =
     Inr [\<lparr> Date = ''01 Jan 2024'', Title = ''Circular on Short Selling'',
            Link = Some ''https://www.sebi.gov.in/x1'' \<rparr>] \<and>
   distinct (map Link [\<lparr> Date = ''01 Jan 2024'', Title = ''Circular on Short Selling'',
                         Link = Some ''https://www.sebi.gov.in/x1'' \<rparr>]) \<and>
   length [\<lparr> Date = ''01 Jan 2024'', Title = ''Circular on Short Selling'',
             Link = Some ''https://www.sebi.gov.in/x1'' \<rparr>] \<le> nat 5 * 2"
proof -
  let ?D = "static_site two_pages"
  let ?c = "\<lparr> Date = ''01 Jan 2024'', Title = ''Circular on Short Selling'',
             Link = Some ''https://www.sebi.gov.in/x1'' \<rparr>"
  let ?c' = "\<lparr> Date = ''01 Jan 2024'', Title = ''Short selling, again'',
             Link = Some ''https://www.sebi.gov.in/x1'' \<rparr>"
  let ?p2 = "[short_selling_row (Some ''Short selling, again''), linkless]"
  have len: "length two_pages = 2" and p1: "two_pages ! 0 = [short_selling_row None]"
    and p2: "two_pages ! 1 = ?p2" and p2': "two_pages ! Suc 0 = ?p2"
    by (simp_all add: two_pages_def)
  have one: "(1::int) \<le> 5" by simp
  have bound: "\<forall>s rows s'. page_source ?D s = Inr (Some (Some rows), s') \<longrightarrow> length rows \<le> 2"
  proof (intro allI impI)
    fix s rows s'
    assume "page_source ?D s = Inr (Some (Some rows), s')"
    then have "s < 2" and "rows = two_pages ! s"
      by (auto simp: len split: if_splits)
    then have "s = 0 \<or> s = 1" by auto
    with \<open>rows = two_pages ! s\<close> show "length rows \<le> 2"
      by (auto simp: p1 p2')
  qed
  have pr1: "parse_row (short_selling_row None) = Some ?c"
    by (simp add: short_selling_row_def parse_row_def strip_def isspace_def absolute_link_def
        startswith_def base_url_def)
  have pr2: "parse_row (short_selling_row (Some ''Short selling, again'')) = Some ?c'"
    by (simp add: short_selling_row_def parse_row_def strip_def isspace_def absolute_link_def
        startswith_def base_url_def)
  have pr3: "parse_row linkless = None"
    by (simp add: linkless_def parse_row_def)
  have r2: "extract_rows ?p2 = [?c']"
    by (simp add: pr2 pr3)
  have c0: "click_next ?D 0 = Inr 1"
    by (simp add: click_next_def len)
  have c1: "click_next ?D 1 = Inl TimeoutException"
    by (simp add: click_next_def len)
  have "scrape_page ?D 5 (int (Suc 0)) 0 [] = ([?c], Some 1)"
    by (simp add: scrape_page_def len p1 c0 pr1)
  then have hp: "harvest_prefix ?D 5 1 0 = Some ([?c], 1)"
    by simp
  have lt: "int 1 + 1 < (5::int)" by simp
  have wt: "wait_table ?D 1 = Inr (1, 1)"
    by (simp add: len)
  have ps: "page_source ?D 1 = Inr (Some (Some ?p2), 1)"
    by (simp add: len p2')
  have l0: "launch ?D = Inr 0" and g0: "get_url ?D 0 = Inr 0"
    by simp_all
  note inst = harvest_corpus [where D = ?D and num_pages = 5 and max_rows = 2 and ?s0.0 = 0
      and ?s1.0 = 0 and k = 1 and collected = "[?c]" and s = 1 and el = 1 and sa = 1
      and rows = ?p2 and sb = 1 and e = TimeoutException, OF one bound]
  from inst l0 g0 hp lt wt ps c1
  have "scrape_recent_circulars ?D 5 = Inr (drop_duplicates ([?c] @ extract_rows ?p2))"
    by blast
  then have run: "scrape_recent_circulars ?D 5 = Inr [?c]"
    by (simp add: pr2 pr3 drop_duplicates_def)
  from inst [THEN conjunct1] have "distinct (map Link [?c]) \<and> length [?c] \<le> nat 5 * 2"
    by (simp add: run)
  with one hp lt c1 r2 run show ?thesis by blast
qed


subsection \<open>The keywords of the matcher\<close>

lemma strip_Nil_iff: "strip s = [] \<longleftrightarrow> (\<forall>c\<in>set s. isspace c)"
proof
  assume "strip s = []"
  then have "dropWhile isspace (rev (dropWhile isspace s)) = []"
    by (simp add: strip_def)
  then have all: "\<forall>c\<in>set (dropWhile isspace s). isspace c"
    by (simp add: dropWhile_eq_Nil_conv)
  have "dropWhile isspace s = []"
  proof (rule ccontr)
    assume ne: "dropWhile isspace s \<noteq> []"
    then have "\<not> isspace (hd (dropWhile isspace s))"
      by (rule hd_dropWhile)
    moreover from ne have "hd (dropWhile isspace s) \<in> set (dropWhile isspace s)"
      by simp
    ultimately show False using all by blast
  qed
  then show "\<forall>c\<in>set s. isspace c"
    by (simp add: dropWhile_eq_Nil_conv)
next
  assume "\<forall>c\<in>set s. isspace c"
  then show "strip s = []"
    by (auto simp: strip_def dest: set_dropWhileD)
qed

lemma split_comma_no_comma: "CHR '','' \<notin> set s \<Longrightarrow> split_comma s = [s]"
  by (induction s) auto

lemma comma_not_space: "\<not> isspace (CHR '','')"
  by (simp add: isspace_def)

lemma lower_Nil_iff: "lower s = [] \<longleftrightarrow> s = []"
  by (simp add: lower_def)

lemma keywords_eq_keyword_set:
  "map (\<lambda>k. lower (strip k)) (filter (\<lambda>k. strip k \<noteq> []) (split_comma csv)) = keyword_set csv"
  unfolding keyword_set_def
  by (induction "split_comma csv") (simp_all add: filter_map o_def lower_Nil_iff)

lemma keyword_set_blank: "strip csv = [] \<Longrightarrow> keyword_set csv = []"
proof -
  assume blank: "strip csv = []"
  then have "\<forall>c\<in>set csv. isspace c" by (simp add: strip_Nil_iff)
  then have "CHR '','' \<notin> set csv" using comma_not_space by blast
  then have "split_comma csv = [csv]" by (rule split_comma_no_comma)
  with blank show ?thesis by (simp add: keyword_set_def lower_def)
qed

subsection \<open>The pattern of the matcher\<close>

lemma re_ends_alternation:
  "ks \<noteq> [] \<Longrightarrow>
   set (re_ends (alternation ks) s i) =
     {i + length k | k. k \<in> set ks \<and> take (length k) (drop i s) = k}"
  by (induction ks rule: alternation.induct) auto

lemma re_ends_keyword_pattern:
  "ks \<noteq> [] \<Longrightarrow>
   re_ends (keyword_pattern ks) s i \<noteq> [] \<longleftrightarrow>
     word_boundary s i \<and>
     (\<exists>k\<in>set ks. take (length k) (drop i s) = k \<and> word_boundary s (i + length k))"
proof -
  assume ne: "ks \<noteq> []"
  have "re_ends (keyword_pattern ks) s i \<noteq> [] \<longleftrightarrow>
        word_boundary s i \<and> (\<exists>j\<in>set (re_ends (alternation ks) s i). word_boundary s j)"
    by (auto simp: keyword_pattern_def)
  also have "\<dots> \<longleftrightarrow> word_boundary s i \<and>
     (\<exists>k\<in>set ks. take (length k) (drop i s) = k \<and> word_boundary s (i + length k))"
    unfolding re_ends_alternation [OF ne] by blast
  finally show ?thesis .
qed

lemma occurs_at_iff:
  "i \<le> length s \<and> take (length k) (drop i s) = k \<longleftrightarrow>
   (\<exists>pre post. s = pre @ k @ post \<and> length pre = i)"
proof
  assume h: "i \<le> length s \<and> take (length k) (drop i s) = k"
  then have "s = take i s @ k @ drop (length k) (drop i s)"
    by (metis append_take_drop_id)
  moreover from h have "length (take i s) = i" by simp
  ultimately show "\<exists>pre post. s = pre @ k @ post \<and> length pre = i" by blast
next
  assume "\<exists>pre post. s = pre @ k @ post \<and> length pre = i"
  then show "i \<le> length s \<and> take (length k) (drop i s) = k" by auto
qed

lemma re_search_keyword_pattern:
  assumes "ks \<noteq> []"
  shows "re_search (keyword_pattern ks) s \<longleftrightarrow> (\<exists>k\<in>set ks. whole_word_in k s)"
proof -
  have "re_search (keyword_pattern ks) s \<longleftrightarrow>
        (\<exists>i\<le>length s. re_ends (keyword_pattern ks) s i \<noteq> [])"
    by (auto simp: re_search_def list_ex_iff less_Suc_eq_le simp del: upt_Suc)
  also have "\<dots> \<longleftrightarrow> (\<exists>k\<in>set ks. \<exists>i. (i \<le> length s \<and> take (length k) (drop i s) = k) \<and>
       word_boundary s i \<and> word_boundary s (i + length k))"
    unfolding re_ends_keyword_pattern [OF assms] by blast
  also have "\<dots> \<longleftrightarrow> (\<exists>k\<in>set ks. whole_word_in k s)"
    unfolding occurs_at_iff whole_word_in_def by blast
  finally show ?thesis .
qed

subsection \<open>The result of the matcher\<close>

lemma find_similar_set:
  "set (find_similar_circulars_local to_datetime csv df original_title) =
     {r \<in> set df. (\<exists>k\<in>set (keyword_set csv). whole_word_in k (lower (Title r))) \<and>
                  strip (Title r) \<noteq> strip original_title}"
proof (cases "df = [] \<or> strip csv = [] \<or> keyword_set csv = []")
  case True
  then have "find_similar_circulars_local to_datetime csv df original_title = []"
    by (auto simp: find_similar_circulars_local_def keywords_eq_keyword_set Let_def)
  moreover from True have "df = [] \<or> keyword_set csv = []"
    using keyword_set_blank by blast
  ultimately show ?thesis by auto
next
  case False
  then have "find_similar_circulars_local to_datetime csv df original_title =
      sort_values to_datetime
        (filter (\<lambda>r. re_search (keyword_pattern (keyword_set csv)) (lower (Title r)) \<and>
                      strip (Title r) \<noteq> strip original_title) df)"
    by (simp add: find_similar_circulars_local_def keywords_eq_keyword_set Let_def)
  moreover from False have "keyword_set csv \<noteq> []" by simp
  ultimately show ?thesis
    by (auto simp: sort_values_def re_search_keyword_pattern)
qed

lemma find_similar_empty:
  "df = [] \<or> keyword_set csv = [] \<Longrightarrow>
   find_similar_circulars_local to_datetime csv df original_title = []"
  using find_similar_set [of to_datetime csv df original_title] by auto

lemma key_le_date_then_title:
  "(date_key (to_datetime (Date a)), Title a) \<le> (date_key (to_datetime (Date b)), Title b) \<Longrightarrow>
   date_then_title to_datetime a b"
  by (auto simp: date_then_title_def date_key_def less_eq_prod_def less_prod_def
      split: option.splits)

lemma sort_values_sorted: "sorted_wrt (date_then_title to_datetime) (sort_values to_datetime df)"
proof -
  let ?key = "\<lambda>r. (date_key (to_datetime (Date r)), Title r)"
  have "sorted (map ?key (sort_key ?key df))"
    by (rule sorted_sort_key)
  then have "sorted_wrt (\<lambda>a b. ?key a \<le> ?key b) (sort_key ?key df)"
    by (simp add: sorted_map)
  then show ?thesis
    unfolding sort_values_def
    by (rule sorted_wrt_mono_rel [rotated]) (rule key_le_date_then_title)
qed


subsection \<open>An example search\<close>

lemma similar_example:
  "find_similar_circulars_local demo_dates ''short, Selling ,,'' corpus6 '' Short Selling '' =
     [\<lparr> Date = ''15 Feb 2024'', Title = ''On short sales'', Link = Some ''b'' \<rparr>,
      \<lparr> Date = ''31 Dec 2023'', Title = ''A SHORT note'', Link = Some ''d'' \<rparr>,
      \<lparr> Date = ''soon'', Title = ''Re selling'', Link = None \<rparr>,
      \<lparr> Date = ''n/a'', Title = ''Selling'', Link = Some ''c'' \<rparr>]"
  by code_simp

lemma similar_example_keywords: "keyword_set ''short, Selling ,,'' = [''short'', ''selling'']"
  by code_simp

lemma lower_short_selling: "lower ''Short Selling'' = ''short selling''"
  by code_simp

lemma strip_short_selling: "strip '' Short Selling '' = ''Short Selling''"
  by code_simp

lemma short_in_short_selling: "whole_word_in ''short'' ''short selling''"
  unfolding whole_word_in_def
  by (rule exI [of _ "[]"], rule exI [of _ "'' selling''"])
    (simp add: word_boundary_def is_word_char_def)

subsection \<open>Which records the matcher returns\<close>

text \<open>
  C2, as amended. The keywords are the pieces of the CSV string between commas, trimmed,
  lower-cased, the empty ones dropped. For an empty corpus or an empty keyword set the
  result is empty. In every case a record is in the result if and only if it is in the
  corpus, at least one keyword appears as a whole word in its lower-cased title, and its
  trimmed title differs from the trimmed \<open>original_title\<close>.
\<close>

theorem similar_iff_keyword_and_not_excluded:
  "(df' = [] \<or> keyword_set csv' = [] \<longrightarrow>
      find_similar_circulars_local to_datetime csv' df' original_title' = []) \<and>
   (r \<in> set (find_similar_circulars_local to_datetime csv df original_title) \<longleftrightarrow>
      r \<in> set df \<and>
      (\<exists>k\<in>set (keyword_set csv). whole_word_in k (lower (Title r))) \<and>
      strip (Title r) \<noteq> strip original_title)"
  using find_similar_empty [of df' csv' to_datetime original_title']
    find_similar_set [of to_datetime csv df original_title]
  by auto

text \<open>A CSV string without keywords, and the example search.\<close>

theorem similar_iff_keyword_and_not_excluded_witness:
  "keyword_set '' , '' = [] \<and>
   find_similar_circulars_local demo_dates '' , '' corpus6 ''x'' = [] \<and>
   \<lparr> Date = ''15 Feb 2024'', Title = ''On short sales'', Link = Some ''b'' \<rparr>
     \<in> set (find_similar_circulars_local demo_dates ''short, Selling ,,'' corpus6 '' Short Selling '') \<and>
   (\<exists>k\<in>set (keyword_set ''short, Selling ,,'').
      whole_word_in k (lower (Title \<lparr> Date = ''15 Feb 2024'', Title = ''On short sales'',
                                       Link = Some ''b'' \<rparr>))) \<and>
   strip (Title \<lparr> Date = ''15 Feb 2024'', Title = ''On short sales'', Link = Some ''b'' \<rparr>) \<noteq>
     strip '' Short Selling ''"
proof -
  let ?r = "\<lparr> Date = ''15 Feb 2024'', Title = ''On short sales'', Link = Some ''b'' \<rparr>"
  have empty: "keyword_set '' , '' = []"
    by code_simp
  have member: "?r \<in> set (find_similar_circulars_local demo_dates ''short, Selling ,,'' corpus6
      '' Short Selling '')"
    by (simp add: similar_example)
  note inst = similar_iff_keyword_and_not_excluded [where df' = corpus6 and csv' = "'' , ''"
      and to_datetime = demo_dates and original_title' = "''x''" and r = ?r
      and csv = "''short, Selling ,,''" and df = corpus6 and original_title = "'' Short Selling ''"]
  from inst empty have "find_similar_circulars_local demo_dates '' , '' corpus6 ''x'' = []"
    by blast
  moreover from inst member have
    "(\<exists>k\<in>set (keyword_set ''short, Selling ,,''). whole_word_in k (lower (Title ?r))) \<and>
     strip (Title ?r) \<noteq> strip '' Short Selling ''"
    by blast
  ultimately show ?thesis using empty member by blast
qed

text \<open>
  C2 as stated does not hold: the only record of this corpus has the keyword \<open>short\<close> as a
  whole word in its title and is not in the result, its title being the excluded one.
\<close>

theorem similar_iff_keyword_counterexample:
  "\<lparr> Date = ''01 Jan 2024'', Title = ''Short Selling'', Link = None \<rparr>
     \<in> set [\<lparr> Date = ''01 Jan 2024'', Title = ''Short Selling'', Link = None \<rparr>] \<and>
   keyword_set ''short'' = [''short''] \<and>
   whole_word_in ''short''
     (lower (Title \<lparr> Date = ''01 Jan 2024'', Title = ''Short Selling'', Link = None \<rparr>)) \<and>
   \<lparr> Date = ''01 Jan 2024'', Title = ''Short Selling'', Link = None \<rparr>
     \<notin> set (find_similar_circulars_local demo_dates ''short''
              [\<lparr> Date = ''01 Jan 2024'', Title = ''Short Selling'', Link = None \<rparr>]
              ''Short Selling'')"
proof -
  have "keyword_set ''short'' = [''short'']"
    by code_simp
  moreover have "find_similar_circulars_local demo_dates ''short''
      [\<lparr> Date = ''01 Jan 2024'', Title = ''Short Selling'', Link = None \<rparr>] ''Short Selling'' = []"
    by code_simp
  ultimately show ?thesis
    by (simp add: lower_short_selling short_in_short_selling)
qed

subsection \<open>The excluded title\<close>

text \<open>
  C3. Whatever the keywords, the corpus and \<open>original_title\<close>, no record of the result has
  a trimmed title equal to the trimmed \<open>original_title\<close>.
\<close>

theorem excluded_title_absent:
  "r \<in> set (find_similar_circulars_local to_datetime csv df original_title) \<Longrightarrow>
   strip (Title r) \<noteq> strip original_title"
  using find_similar_set [of to_datetime csv df original_title] by blast

text \<open>
  The example search: a record of the result, and the record of the corpus with the
  excluded title, absent from the result.
\<close>

theorem excluded_title_absent_witness:
  "\<lparr> Date = ''n/a'', Title = ''Selling'', Link = Some ''c'' \<rparr>
     \<in> set (find_similar_circulars_local demo_dates ''short, Selling ,,'' corpus6 '' Short Selling '') \<and>
   strip (Title \<lparr> Date = ''n/a'', Title = ''Selling'', Link = Some ''c'' \<rparr>) \<noteq>
     strip '' Short Selling '' \<and>
   \<lparr> Date = ''01 Jan 2024'', Title = ''Short Selling'', Link = Some ''a'' \<rparr> \<in> set corpus6 \<and>
   \<lparr> Date = ''01 Jan 2024'', Title = ''Short Selling'', Link = Some ''a'' \<rparr>
     \<notin> set (find_similar_circulars_local demo_dates ''short, Selling ,,'' corpus6 '' Short Selling '')"
proof -
  let ?r = "\<lparr> Date = ''n/a'', Title = ''Selling'', Link = Some ''c'' \<rparr>"
  have member: "?r \<in> set (find_similar_circulars_local demo_dates ''short, Selling ,,'' corpus6
      '' Short Selling '')"
    by (simp add: similar_example)
  from excluded_title_absent [OF member]
  have "strip (Title ?r) \<noteq> strip '' Short Selling ''" .
  moreover have "\<lparr> Date = ''01 Jan 2024'', Title = ''Short Selling'', Link = Some ''a'' \<rparr> \<in> set corpus6"
    by (simp add: corpus6_def)
  moreover have "\<lparr> Date = ''01 Jan 2024'', Title = ''Short Selling'', Link = Some ''a'' \<rparr>
     \<notin> set (find_similar_circulars_local demo_dates ''short, Selling ,,'' corpus6 '' Short Selling '')"
    by (simp add: similar_example)
  ultimately show ?thesis using member by blast
qed

subsection \<open>The order of the result\<close>

text \<open>
  C4. In the result, of two records the earlier has the later parsed date, or the same
  parsed date and a title that is not greater; a record whose date does not parse comes
  after every record whose date parses, and among those the titles ascend.
\<close>

theorem similar_sorted:
  "sorted_wrt (date_then_title to_datetime)
     (find_similar_circulars_local to_datetime csv df original_title)"
proof -
  have "find_similar_circulars_local to_datetime csv df original_title = [] \<or>
        (\<exists>xs. find_similar_circulars_local to_datetime csv df original_title =
               sort_values to_datetime xs)"
    by (auto simp: find_similar_circulars_local_def Let_def)
  then show ?thesis
    using sort_values_sorted by auto
qed

text \<open>The example search: two dated records, then two undated ones by title.\<close>

theorem similar_sorted_witness:
  "sorted_wrt (date_then_title demo_dates)
     [\<lparr> Date = ''15 Feb 2024'', Title = ''On short sales'', Link = Some ''b'' \<rparr>,
      \<lparr> Date = ''31 Dec 2023'', Title = ''A SHORT note'', Link = Some ''d'' \<rparr>,
      \<lparr> Date = ''soon'', Title = ''Re selling'', Link = None \<rparr>,
      \<lparr> Date = ''n/a'', Title = ''Selling'', Link = Some ''c'' \<rparr>]"
  using similar_sorted [of demo_dates "''short, Selling ,,''" corpus6 "'' Short Selling ''"]
  by (simp only: similar_example)


subsection \<open>The summarization client\<close>

lemma summarize_blank:
  "strip circular_text = [] \<Longrightarrow>
   summarize_circular_text E circular_text circular_link = (guidance, [])"
  by (simp add: summarize_circular_text_def)

lemma summarize_reply:
  "strip circular_text \<noteq> [] \<Longrightarrow>
   summarize_circular_text E circular_text circular_link =
     ((case service_reply E circular_text of
         Inl e \<Rightarrow> handle_error e
       | Inr result \<Rightarrow>
           (case read_envelope (py_str E) result circular_link of
              Inl e \<Rightarrow> handle_error e
            | Inr answer \<Rightarrow> answer)),
      [\<lparr> api_key = getenv_Api_Key E, prompt = summary_prompt circular_text \<rparr>])"
  by (auto simp: summarize_circular_text_def service_reply_def Let_def
      split: sum.splits option.splits)

lemma py_get_obj:
  "py_get (JObj members) key dflt = Inr (case map_of members key of None \<Rightarrow> dflt | Some x \<Rightarrow> x)"
  by (simp add: py_get_def split: option.splits)

lemma py_get_error: "py_get v key dflt = Inl e \<Longrightarrow> \<exists>m. e = OtherException m"
  by (auto simp: py_get_def split: json.splits option.splits)

lemma py_len_error: "py_len v = Inl e \<Longrightarrow> \<exists>m. e = OtherException m"
  by (auto simp: py_len_def split: json.splits)

lemma py_first_error: "py_first v = Inl e \<Longrightarrow> \<exists>m. e = OtherException m"
  by (auto simp: py_first_def split: json.splits list.splits)

lemma read_envelope_error:
  "read_envelope str_of result circular_link = Inl e \<Longrightarrow> \<exists>m. e = OtherException m"
  unfolding read_envelope_def
  by (auto split: sum.splits if_splits dest: py_get_error py_len_error py_first_error)

lemma read_envelope_answer:
  "read_envelope str_of result circular_link = Inr answer \<Longrightarrow>
   answer = unexpected_structure \<or> (\<exists>t. answer = t @ link_suffix circular_link)"
  unfolding read_envelope_def
  by (auto split: sum.splits if_splits)

text \<open>The steps of the client on the way down, by what they find.\<close>

lemma object_members_Some: "object_members v = Some members \<Longrightarrow> v = JObj members"
  by (cases v) simp_all

lemma get_not_object:
  "object_members v = None \<Longrightarrow> \<exists>m. py_get v key dflt = Inl (OtherException m)"
  by (cases v) (simp_all add: py_get_def)

lemma get_member:
  obtains (absent) v where "py_get (JObj members) key JNull = Inr v" and "\<not> truthy v"
      and "present members key = None"
  | (found) v where "py_get (JObj members) key JNull = Inr v" and "truthy v"
      and "present members key = Some v"
proof (cases "map_of members key")
  case None
  then have "py_get (JObj members) key JNull = Inr JNull" "\<not> truthy JNull"
    "present members key = None"
    by (simp_all add: py_get_def present_def truthy_def)
  then show ?thesis by (rule absent)
next
  case (Some x)
  show ?thesis
  proof (cases "truthy x")
    case True
    with Some have "py_get (JObj members) key JNull = Inr x" "truthy x"
      "present members key = Some x"
      by (simp_all add: py_get_def present_def)
    then show ?thesis by (rule found)
  next
    case False
    with Some have "py_get (JObj members) key JNull = Inr x" "\<not> truthy x"
      "present members key = None"
      by (simp_all add: py_get_def present_def)
    then show ?thesis by (rule absent)
  qed
qed

lemma first_of_truthy:
  assumes "truthy v"
  obtains (object) n members where "py_len v = Inr n" and "0 < n"
      and "py_first v = Inr (JObj members)" and "first_object v = Some members"
  | (other) n x where "py_len v = Inr n" and "0 < n" and "py_first v = Inr x"
      and "object_members x = None" and "first_object v = None"
  | (no_first) n m where "py_len v = Inr n" and "0 < n"
      and "py_first v = Inl (OtherException m)" and "first_object v = None"
  | (no_len) m where "py_len v = Inl (OtherException m)" and "first_object v = None"
proof (cases v)
  case JNull
  with assms show ?thesis by (simp add: truthy_def)
next
  case (JBool b)
  then have "py_len v = Inl (OtherException (''object of type '' @ [CHR 0x27] @ type_name v @
      [CHR 0x27] @ '' has no len()''))" "first_object v = None"
    by (simp_all add: py_len_def)
  then show ?thesis by (rule no_len)
next
  case (JNum i)
  then have "py_len v = Inl (OtherException (''object of type '' @ [CHR 0x27] @ type_name v @
      [CHR 0x27] @ '' has no len()''))" "first_object v = None"
    by (simp_all add: py_len_def)
  then show ?thesis by (rule no_len)
next
  case (JStr cs)
  with assms obtain c cs' where cs: "cs = c # cs'"
    by (cases cs) (simp_all add: truthy_def)
  with JStr have "py_len v = Inr (length cs)" "0 < length cs" "py_first v = Inr (JStr [c])"
    "object_members (JStr [c]) = None" "first_object v = None"
    by (simp_all add: py_len_def py_first_def)
  then show ?thesis by (rule other)
next
  case (JArr xs)
  with assms obtain x xs' where xs: "xs = x # xs'"
    by (cases xs) (simp_all add: truthy_def)
  show ?thesis
  proof (cases "object_members x")
    case None
    with JArr xs have "py_len v = Inr (length xs)" "0 < length xs" "py_first v = Inr x"
      "object_members x = None" "first_object v = None"
      by (cases x; simp add: py_len_def py_first_def)+
    then show ?thesis by (rule other)
  next
    case (Some members)
    then have "x = JObj members" by (rule object_members_Some)
    with JArr xs have "py_len v = Inr (length xs)" "0 < length xs"
      "py_first v = Inr (JObj members)" "first_object v = Some members"
      by (simp_all add: py_len_def py_first_def)
    then show ?thesis by (rule object)
  qed
next
  case (JObj kvs)
  with assms have "kvs \<noteq> []" by (simp add: truthy_def)
  with JObj have "py_len v = Inr (length kvs)" "0 < length kvs"
    "py_first v = Inl (OtherException ''0'')" "first_object v = None"
    by (simp_all add: py_len_def py_first_def)
  then show ?thesis by (rule no_first)
qed


lemma read_envelope_shape:
  "case envelope_shape result of
     Lacking \<Rightarrow> read_envelope str_of result circular_link = Inr unexpected_structure
   | Part part \<Rightarrow> read_envelope str_of result circular_link =
                   Inr (summary_of_part str_of part @ link_suffix circular_link)
   | Misshapen \<Rightarrow> (\<exists>m. read_envelope str_of result circular_link = Inl (OtherException m))"
proof (cases "object_members result")
  case None
  then obtain m where "py_get result ''candidates'' JNull = Inl (OtherException m)"
    using get_not_object by blast
  with None show ?thesis
    by (simp add: envelope_shape_def read_envelope_def)
next
  case (Some members)
  then have result: "result = JObj members" by (rule object_members_Some)
  show ?thesis
  proof (cases rule: get_member [of members "''candidates''"])
    case (absent v)
    then show ?thesis
      by (simp add: envelope_shape_def read_envelope_def result)
  next
    case (found candidates)
    note l1 = found
    from found(2) show ?thesis
    proof (cases rule: first_of_truthy)
      case (no_len m)
      with l1 show ?thesis
        by (simp add: envelope_shape_def read_envelope_def result)
    next
      case (no_first n m)
      with l1 show ?thesis
        by (simp add: envelope_shape_def read_envelope_def result)
    next
      case (other n x)
      from other(4) obtain m where "py_get x ''content'' JNull = Inl (OtherException m)"
        using get_not_object by blast
      with l1 other show ?thesis
        by (simp add: envelope_shape_def read_envelope_def result)
    next
      case (object n candidate)
      note l2 = object
      show ?thesis
      proof (cases rule: get_member [of candidate "''content''"])
        case (absent v)
        with l1 l2 show ?thesis
          by (simp add: envelope_shape_def read_envelope_def result)
      next
        case (found content)
        note l3 = found
        show ?thesis
        proof (cases "object_members content")
          case None
          then obtain m where "py_get content ''parts'' JNull = Inl (OtherException m)"
            using get_not_object by blast
          with l1 l2 l3 None show ?thesis
            by (simp add: envelope_shape_def read_envelope_def result)
        next
          case (Some content_members)
          then have content: "content = JObj content_members" by (rule object_members_Some)
          note l3' = l3 [unfolded content]
          show ?thesis
          proof (cases rule: get_member [of content_members "''parts''"])
            case (absent v)
            with l1 l2 l3' show ?thesis
              by (simp add: envelope_shape_def read_envelope_def result)
          next
            case (found parts)
            note l4 = found
            from found(2) show ?thesis
            proof (cases rule: first_of_truthy)
              case (no_len m)
              with l1 l2 l3' l4 show ?thesis
                by (simp add: envelope_shape_def read_envelope_def result)
            next
              case (no_first n' m)
              with l1 l2 l3' l4 show ?thesis
                by (simp add: envelope_shape_def read_envelope_def result)
            next
              case (other n' x)
              from other(4) obtain m where
                "py_get x ''text'' (JStr ''No summary text found.'') = Inl (OtherException m)"
                using get_not_object by blast
              with l1 l2 l3' l4 other show ?thesis
                by (simp add: envelope_shape_def read_envelope_def result)
            next
              case (object n' part)
              with l1 l2 l3' l4 show ?thesis
                by (simp add: envelope_shape_def read_envelope_def result py_get_obj
                    summary_of_part_def split: option.splits json.splits)
            qed
          qed
        qed
      qed
    qed
  qed
qed

lemma answer_not_unexpected_structure: "t @ link_suffix circular_link \<noteq> unexpected_structure"
proof
  assume "t @ link_suffix circular_link = unexpected_structure"
  then have "last (t @ link_suffix circular_link) = last unexpected_structure"
    by simp
  then show False
    by (simp add: link_suffix_def unexpected_structure_def)
qed

lemma summarize_body:
  assumes "strip circular_text \<noteq> []" and "service_reply E circular_text = Inr result"
  shows "case envelope_shape result of
           Lacking \<Rightarrow> fst (summarize_circular_text E circular_text circular_link) =
                        unexpected_structure
         | Part part \<Rightarrow> fst (summarize_circular_text E circular_text circular_link) =
                          summary_of_part (py_str E) part @ link_suffix circular_link
         | Misshapen \<Rightarrow> (\<exists>m. fst (summarize_circular_text E circular_text circular_link) =
                                ''An unexpected error occurred: '' @ m)"
  using read_envelope_shape [where result = result and str_of = "py_str E" and circular_link = circular_link] assms
  by (auto simp: summarize_reply handle_error_def split: shape.splits)


text \<open>
  C7, as amended. \<open>summarize_circular_text\<close> always returns one of six strings, every
  exception on the way being caught. For a text that is empty after trimming it returns
  the guidance string and posts nothing; otherwise it posts exactly one request. A
  \<open>RequestException\<close>, from the network or from the status, gives \<open>An error occurred while
  summarizing:\<close> with its text. Of a decoded body, going down
  \<open>candidates[0].content.parts[0]\<close>:
  \<^item> when the path exists and \<open>parts[0]\<close> is an object, the answer is that object's
    \<open>text\<close>, or the placeholder \<open>No summary text found.\<close> when it has none, followed by the
    link to \<open>circular_link\<close>;
  \<^item> the answer is the "unexpected structure" string exactly when the body is an object
    and \<open>candidates\<close>, or the \<open>content\<close> of the object \<open>candidates[0]\<close>, or the \<open>parts\<close> of the
    object \<open>content\<close>, is absent or empty;
  \<^item> for every other body, where a value on the path has another type than the path
    asks, the answer is \<open>An unexpected error occurred:\<close> with the text of the exception.

  Nothing is said of a body that cannot be decoded.
\<close>

theorem summarize_outcomes:
  "(strip ctext0 = [] \<longrightarrow> summarize_circular_text E0 ctext0 link0 = (guidance, [])) \<and>
   (strip ctext \<noteq> [] \<longrightarrow>
      snd (summarize_circular_text E ctext link) =
        [\<lparr> api_key = getenv_Api_Key E, prompt = summary_prompt ctext \<rparr>]) \<and>
   (fst (summarize_circular_text E ctext link) = guidance \<or>
    fst (summarize_circular_text E ctext link) = unexpected_structure \<or>
    (\<exists>t. fst (summarize_circular_text E ctext link) = t @ link_suffix link) \<or>
    (\<exists>m. fst (summarize_circular_text E ctext link) = ''An error occurred while summarizing: '' @ m) \<or>
    (\<exists>m. fst (summarize_circular_text E ctext link) =
            ''An error occurred while processing API response: '' @ m) \<or>
    (\<exists>m. fst (summarize_circular_text E ctext link) = ''An unexpected error occurred: '' @ m)) \<and>
   (strip ctext1 \<noteq> [] \<and> service_reply E1 ctext1 = Inl (RequestException m1) \<longrightarrow>
      fst (summarize_circular_text E1 ctext1 link1) = ''An error occurred while summarizing: '' @ m1) \<and>
   (strip ctext2 \<noteq> [] \<and> service_reply E2 ctext2 = Inr result2 \<and>
    envelope_shape result2 = Part part2 \<longrightarrow>
      fst (summarize_circular_text E2 ctext2 link2) =
        summary_of_part (py_str E2) part2 @ link_suffix link2) \<and>
   (strip ctext3 \<noteq> [] \<and> service_reply E3 ctext3 = Inr result3 \<longrightarrow>
      (fst (summarize_circular_text E3 ctext3 link3) = unexpected_structure \<longleftrightarrow>
       envelope_shape result3 = Lacking)) \<and>
   (strip ctext4 \<noteq> [] \<and> service_reply E4 ctext4 = Inr result4 \<and>
    envelope_shape result4 = Misshapen \<longrightarrow>
      (\<exists>m. fst (summarize_circular_text E4 ctext4 link4) = ''An unexpected error occurred: '' @ m))"
proof (intro conjI impI)
  assume "strip ctext0 = []"
  then show "summarize_circular_text E0 ctext0 link0 = (guidance, [])"
    by (rule summarize_blank)
next
  assume "strip ctext \<noteq> []"
  then show "snd (summarize_circular_text E ctext link) =
        [\<lparr> api_key = getenv_Api_Key E, prompt = summary_prompt ctext \<rparr>]"
    by (simp add: summarize_reply)
next
  let ?r = "fst (summarize_circular_text E ctext link)"
  show "?r = guidance \<or> ?r = unexpected_structure \<or> (\<exists>t. ?r = t @ link_suffix link) \<or>
    (\<exists>m. ?r = ''An error occurred while summarizing: '' @ m) \<or>
    (\<exists>m. ?r = ''An error occurred while processing API response: '' @ m) \<or>
    (\<exists>m. ?r = ''An unexpected error occurred: '' @ m)"
  proof (cases "strip ctext = []")
    case True
    then show ?thesis by (simp add: summarize_blank)
  next
    case False
    have err: "(\<exists>m. handle_error e = ''An error occurred while summarizing: '' @ m) \<or>
       (\<exists>m. handle_error e = ''An error occurred while processing API response: '' @ m) \<or>
       (\<exists>m. handle_error e = ''An unexpected error occurred: '' @ m)" for e
      by (cases e) (simp_all add: handle_error_def)
    show ?thesis
    proof (cases "service_reply E ctext")
      case (Inl e)
      with False have "?r = handle_error e" by (simp add: summarize_reply)
      with err [of e] show ?thesis by presburger
    next
      case (Inr result)
      show ?thesis
      proof (cases "read_envelope (py_str E) result link")
        case (Inl e)
        with False Inr have "?r = handle_error e" by (simp add: summarize_reply)
        with err [of e] show ?thesis by presburger
      next
        case inr: (Inr answer)
        with False Inr have "?r = answer" by (simp add: summarize_reply)
        with read_envelope_answer [OF inr] show ?thesis by blast
      qed
    qed
  qed
next
  assume "strip ctext1 \<noteq> [] \<and> service_reply E1 ctext1 = Inl (RequestException m1)"
  then show "fst (summarize_circular_text E1 ctext1 link1) =
      ''An error occurred while summarizing: '' @ m1"
    by (simp add: summarize_reply handle_error_def)
next
  assume h: "strip ctext2 \<noteq> [] \<and> service_reply E2 ctext2 = Inr result2 \<and>
    envelope_shape result2 = Part part2"
  then have "strip ctext2 \<noteq> []" and "service_reply E2 ctext2 = Inr result2"
    by simp_all
  from summarize_body [OF this, of link2] h
  show "fst (summarize_circular_text E2 ctext2 link2) =
        summary_of_part (py_str E2) part2 @ link_suffix link2"
    by simp
next
  assume "strip ctext3 \<noteq> [] \<and> service_reply E3 ctext3 = Inr result3"
  then have "strip ctext3 \<noteq> []" and "service_reply E3 ctext3 = Inr result3"
    by simp_all
  note body = summarize_body [OF this, of link3]
  show "fst (summarize_circular_text E3 ctext3 link3) = unexpected_structure \<longleftrightarrow>
      envelope_shape result3 = Lacking"
  proof (cases "envelope_shape result3")
    case Lacking
    with body show ?thesis by simp
  next
    case (Part part)
    with body have "fst (summarize_circular_text E3 ctext3 link3) =
        summary_of_part (py_str E3) part @ link_suffix link3"
      by simp
    with Part show ?thesis
      by (simp add: answer_not_unexpected_structure)
  next
    case Misshapen
    with body obtain m where
      "fst (summarize_circular_text E3 ctext3 link3) = ''An unexpected error occurred: '' @ m"
      by auto
    with Misshapen show ?thesis
      by (simp add: unexpected_structure_def)
  qed
next
  assume h: "strip ctext4 \<noteq> [] \<and> service_reply E4 ctext4 = Inr result4 \<and>
    envelope_shape result4 = Misshapen"
  then have "strip ctext4 \<noteq> []" and "service_reply E4 ctext4 = Inr result4"
    by simp_all
  from summarize_body [OF this, of link4] h
  show "\<exists>m. fst (summarize_circular_text E4 ctext4 link4) = ''An unexpected error occurred: '' @ m"
    by simp
qed


text \<open>Examples of each outcome.\<close>

lemma strip_text: "strip ''text'' \<noteq> []" and strip_blanks: "strip ''  '' = []"
  by code_simp+

lemma fake_gemini_reply:
  "service_reply (fake_gemini (ok_body body)) circular_text = Inr body"
  "service_reply (fake_gemini (Inr \<lparr> raise_for_status = Some e, response_json = r \<rparr>)) circular_text = Inl e"
  "service_reply (fake_gemini (Inr \<lparr> raise_for_status = None, response_json = r \<rparr>)) circular_text = r"
  by (simp_all add: service_reply_def fake_gemini_def ok_body_def)

theorem summarize_outcomes_witness:
  "summarize_circular_text (fake_gemini (ok_body (envelope [(''text'', JStr ''S'')]))) ''  '' ''L'' =
     (guidance, []) \<and>
   snd (summarize_circular_text (fake_gemini (ok_body (envelope [(''text'', JStr ''S'')]))) ''text'' ''L'') =
     [\<lparr> api_key = Some ''k'', prompt = summary_prompt ''text'' \<rparr>] \<and>
   fst (summarize_circular_text
          (fake_gemini (Inr \<lparr> raise_for_status = Some (RequestException ''500 Server Error''),
                              response_json = Inr JNull \<rparr>)) ''text'' ''L'') =
     ''An error occurred while summarizing: 500 Server Error'' \<and>
   envelope_shape (envelope [(''text'', JStr ''S'')]) = Part [(''text'', JStr ''S'')] \<and>
   fst (summarize_circular_text (fake_gemini (ok_body (envelope [(''text'', JStr ''S'')]))) ''text'' ''L'') =
     ''S'' @ link_suffix ''L'' \<and>
   envelope_shape (JObj [(''candidates'', JArr [])]) = Lacking \<and>
   fst (summarize_circular_text (fake_gemini (ok_body (JObj [(''candidates'', JArr [])]))) ''text'' ''L'') =
     unexpected_structure \<and>
   envelope_shape (JObj [(''candidates'', JArr [JObj [(''content'', JStr ''x'')]])]) = Misshapen \<and>
   (\<exists>m. fst (summarize_circular_text
          (fake_gemini (ok_body (JObj [(''candidates'', JArr [JObj [(''content'', JStr ''x'')]])])))
          ''text'' ''L'') = ''An unexpected error occurred: '' @ m)"
proof -
  let ?ok = "fake_gemini (ok_body (envelope [(''text'', JStr ''S'')]))"
  let ?e500 = "fake_gemini (Inr \<lparr> raise_for_status = Some (RequestException ''500 Server Error''),
                              response_json = Inr JNull \<rparr>)"
  let ?lack = "fake_gemini (ok_body (JObj [(''candidates'', JArr [])]))"
  let ?mis = "fake_gemini (ok_body (JObj [(''candidates'', JArr [JObj [(''content'', JStr ''x'')]])]))"
  have part: "envelope_shape (envelope [(''text'', JStr ''S'')]) = Part [(''text'', JStr ''S'')]"
    by (simp add: envelope_shape_def envelope_def present_def truthy_def)
  have lack: "envelope_shape (JObj [(''candidates'', JArr [])]) = Lacking"
    by (simp add: envelope_shape_def present_def truthy_def)
  have mis: "envelope_shape (JObj [(''candidates'', JArr [JObj [(''content'', JStr ''x'')]])]) = Misshapen"
    by (simp add: envelope_shape_def present_def truthy_def)
  have key: "getenv_Api_Key ?ok = Some ''k''" and str: "py_str ?ok = (\<lambda>v. [])"
    by (simp_all add: fake_gemini_def)
  from summarize_outcomes [where ?ctext0.0 = "''  ''" and ?E0.0 = ?ok and ?link0.0 = "''L''"
      and ctext = "''text''" and E = ?ok and link = "''L''"
      and ?ctext1.0 = "''text''" and ?E1.0 = ?e500 and ?link1.0 = "''L''" and ?m1.0 = "''500 Server Error''"
      and ?ctext2.0 = "''text''" and ?E2.0 = ?ok and ?link2.0 = "''L''"
      and ?result2.0 = "envelope [(''text'', JStr ''S'')]" and ?part2.0 = "[(''text'', JStr ''S'')]"
      and ?ctext3.0 = "''text''" and ?E3.0 = ?lack and ?link3.0 = "''L''"
      and ?result3.0 = "JObj [(''candidates'', JArr [])]"
      and ?ctext4.0 = "''text''" and ?E4.0 = ?mis and ?link4.0 = "''L''"
      and ?result4.0 = "JObj [(''candidates'', JArr [JObj [(''content'', JStr ''x'')]])]"]
    strip_text strip_blanks part lack mis key
  show ?thesis
    by (simp add: fake_gemini_reply summary_of_part_def)
qed

text \<open>
  C7 as stated does not hold. Malformed envelopes that do not give the "unexpected
  structure" string: the body \<open>{"candidates": [{"content": {"parts": [{}]}}]}\<close>, which lacks
  the \<open>text\<close>, gives the placeholder with the link appended; the bodies
  \<open>{"candidates": [{"content": "x"}]}\<close> and \<open>[]\<close> give the string of the last handler. And a
  body that cannot be decoded does not give the decode-failure string when the exception
  is the \<open>requests.exceptions.JSONDecodeError\<close> of \<open>response.json()\<close>: the first handler
  takes it.
\<close>

theorem malformed_envelope_counterexample:
  "fst (summarize_circular_text (fake_gemini (ok_body (envelope []))) ''text'' ''L'') =
     ''No summary text found.'' @ link_suffix ''L'' \<and>
   fst (summarize_circular_text (fake_gemini (ok_body (envelope []))) ''text'' ''L'') \<noteq>
     unexpected_structure \<and>
   fst (summarize_circular_text
          (fake_gemini (ok_body (JObj [(''candidates'', JArr [JObj [(''content'', JStr ''x'')]])])))
          ''text'' ''L'') =
     ''An unexpected error occurred: '' @ [CHR 0x27] @ ''str'' @ [CHR 0x27] @
     '' object has no attribute '' @ [CHR 0x27] @ ''get'' @ [CHR 0x27] \<and>
   fst (summarize_circular_text
          (fake_gemini (ok_body (JObj [(''candidates'', JArr [JObj [(''content'', JStr ''x'')]])])))
          ''text'' ''L'') \<noteq> unexpected_structure \<and>
   fst (summarize_circular_text (fake_gemini (ok_body (JArr []))) ''text'' ''L'') =
     ''An unexpected error occurred: '' @ [CHR 0x27] @ ''list'' @ [CHR 0x27] @
     '' object has no attribute '' @ [CHR 0x27] @ ''get'' @ [CHR 0x27] \<and>
   fst (summarize_circular_text (fake_gemini (ok_body (JArr []))) ''text'' ''L'') \<noteq>
     unexpected_structure \<and>
   fst (summarize_circular_text
          (fake_gemini (Inr \<lparr> raise_for_status = None,
                              response_json = Inl (RequestsJSONDecodeError ''Expecting value'') \<rparr>))
          ''text'' ''L'') =
     ''An error occurred while summarizing: Expecting value'' \<and>
   fst (summarize_circular_text
          (fake_gemini (Inr \<lparr> raise_for_status = None,
                              response_json = Inl (RequestsJSONDecodeError ''Expecting value'') \<rparr>))
          ''text'' ''L'') \<noteq>
     ''An error occurred while processing API response: Expecting value''"
proof -
  have a: "fst (summarize_circular_text (fake_gemini (ok_body (envelope []))) ''text'' ''L'') =
     ''No summary text found.'' @ link_suffix ''L''"
    by (simp add: summarize_reply strip_text fake_gemini_reply envelope_def read_envelope_def
        py_get_def truthy_def py_len_def py_first_def)
  have b: "fst (summarize_circular_text
          (fake_gemini (ok_body (JObj [(''candidates'', JArr [JObj [(''content'', JStr ''x'')]])])))
          ''text'' ''L'') =
     ''An unexpected error occurred: '' @ [CHR 0x27] @ ''str'' @ [CHR 0x27] @
     '' object has no attribute '' @ [CHR 0x27] @ ''get'' @ [CHR 0x27]"
    by (simp add: summarize_reply strip_text fake_gemini_reply read_envelope_def py_get_def
        truthy_def py_len_def py_first_def type_name_def handle_error_def)
  have c: "fst (summarize_circular_text (fake_gemini (ok_body (JArr []))) ''text'' ''L'') =
     ''An unexpected error occurred: '' @ [CHR 0x27] @ ''list'' @ [CHR 0x27] @
     '' object has no attribute '' @ [CHR 0x27] @ ''get'' @ [CHR 0x27]"
    by (simp add: summarize_reply strip_text fake_gemini_reply read_envelope_def py_get_def
        type_name_def handle_error_def)
  have d: "fst (summarize_circular_text
          (fake_gemini (Inr \<lparr> raise_for_status = None,
                              response_json = Inl (RequestsJSONDecodeError ''Expecting value'') \<rparr>))
          ''text'' ''L'') =
     ''An error occurred while summarizing: Expecting value''"
    by (simp add: summarize_reply strip_text fake_gemini_reply handle_error_def)
  have "''No summary text found.'' @ link_suffix ''L'' \<noteq> unexpected_structure"
    by (simp add: link_suffix_def unexpected_structure_def)
  moreover have "''An unexpected error occurred: '' @ [CHR 0x27] @ ''str'' @ [CHR 0x27] @
     '' object has no attribute '' @ [CHR 0x27] @ ''get'' @ [CHR 0x27] \<noteq> unexpected_structure"
    by (simp add: unexpected_structure_def)
  moreover have "''An unexpected error occurred: '' @ [CHR 0x27] @ ''list'' @ [CHR 0x27] @
     '' object has no attribute '' @ [CHR 0x27] @ ''get'' @ [CHR 0x27] \<noteq> unexpected_structure"
    by (simp add: unexpected_structure_def)
  moreover have "''An error occurred while summarizing: Expecting value'' \<noteq>
     ''An error occurred while processing API response: Expecting value''"
    by simp
  ultimately show ?thesis
    using a b c d by simp
qed

end
